theory Spec2Isabelle
  imports Main
begin

section \<open>JavaScript values used by the voice grid\<close>

text \<open>
  A transcript is a JavaScript string. It is modelled as a \<open>string\<close> whose characters are
  read as the code units U+0000 .. U+00FF. A JavaScript \<open>number\<close> that the parser produces
  comes from \<open>parseInt\<close> and integer arithmetic, so it is either an integer or \<open>NaN\<close>.
\<close>

datatype jsnum = NaN | Num int

datatype jsval = JString string | JNonString

fun js_sub :: "jsnum \<Rightarrow> jsnum \<Rightarrow> jsnum" where
  "js_sub (Num a) (Num b) = Num (a - b)"
| "js_sub _ _ = NaN"

fun js_add :: "jsnum \<Rightarrow> jsnum \<Rightarrow> jsnum" where
  "js_add (Num a) (Num b) = Num (a + b)"
| "js_add _ _ = NaN"

fun js_mul :: "jsnum \<Rightarrow> jsnum \<Rightarrow> jsnum" where
  "js_mul (Num a) (Num b) = Num (a * b)"
| "js_mul _ _ = NaN"

fun js_le :: "jsnum \<Rightarrow> jsnum \<Rightarrow> bool" where
  "js_le (Num a) (Num b) = (a \<le> b)"
| "js_le _ _ = False"

fun js_lt :: "jsnum \<Rightarrow> jsnum \<Rightarrow> bool" where
  "js_lt (Num a) (Num b) = (a < b)"
| "js_lt _ _ = False"

fun js_min :: "jsnum \<Rightarrow> jsnum \<Rightarrow> jsnum" where
  "js_min (Num a) (Num b) = Num (min a b)"
| "js_min _ _ = NaN"

fun js_max :: "jsnum \<Rightarrow> jsnum \<Rightarrow> jsnum" where
  "js_max (Num a) (Num b) = Num (max a b)"
| "js_max _ _ = NaN"

subsection \<open>Character classes\<close>

definition is_space :: "char \<Rightarrow> bool" where
  \<comment> \<open>\<open>\s\<close> and the characters \<open>trim\<close> removes: TAB, LF, VT, FF, CR, space, U+00A0\<close>
  "is_space c = (c \<in> set [CHR 0x09, CHR 0x0A, CHR 0x0B, CHR 0x0C, CHR 0x0D, CHR 0x20, CHR 0xA0])"

definition is_digit :: "char \<Rightarrow> bool" where
  \<comment> \<open>\<open>\d\<close>\<close>
  "is_digit c = (c \<in> set ''0123456789'')"

definition is_digit19 :: "char \<Rightarrow> bool" where
  \<comment> \<open>\<open>[1-9]\<close>\<close>
  "is_digit19 c = (c \<in> set ''123456789'')"

definition is_word :: "char \<Rightarrow> bool" where
  \<comment> \<open>\<open>\w\<close>, which decides \<open>\b\<close>\<close>
  "is_word c = (c \<in> set ''abcdefghijklmnopqrstuvwxyzABCDEFGHIJKLMNOPQRSTUVWXYZ0123456789_'')"

definition is_list_char :: "char \<Rightarrow> bool" where
  \<comment> \<open>\<open>[\d\s, and]\<close>\<close>
  "is_list_char c = (is_digit c \<or> is_space c \<or> c \<in> set '', and'')"

definition toLowerCase_char :: "char \<Rightarrow> char" where
  "toLowerCase_char c =
     (let n = (of_char c :: nat)
      in if (65 \<le> n \<and> n \<le> 90) \<or> (192 \<le> n \<and> n \<le> 222 \<and> n \<noteq> 215)
         then char_of (n + 32) else c)"

definition toLowerCase :: "string \<Rightarrow> string" where
  "toLowerCase s = map toLowerCase_char s"

definition trim :: "string \<Rightarrow> string" where
  "trim s = rev (dropWhile is_space (rev (dropWhile is_space s)))"

fun starts_with :: "string \<Rightarrow> string \<Rightarrow> bool" where
  \<comment> \<open>\<open>starts_with key s\<close>: \<open>s\<close> begins with \<open>key\<close>\<close>
  "starts_with [] s = True"
| "starts_with (k # ks) [] = False"
| "starts_with (k # ks) (c # cs) = (k = c \<and> starts_with ks cs)"

fun str_includes :: "string \<Rightarrow> string \<Rightarrow> bool" where
  \<comment> \<open>\<open>s.includes(key)\<close>\<close>
  "str_includes [] key = (key = [])"
| "str_includes (c # cs) key = (starts_with key (c # cs) \<or> str_includes cs key)"

subsection \<open>parseInt\<close>

definition digit_val :: "char \<Rightarrow> int" where
  "digit_val c = int (of_char c) - 48"

definition digits_val :: "string \<Rightarrow> int" where
  "digits_val ds = foldl (\<lambda>acc c. acc * 10 + digit_val c) 0 ds"

definition parseInt :: "string \<Rightarrow> jsnum" where
  \<comment> \<open>\<open>parseInt(s, 10)\<close>: leading white space, an optional sign, the longest run of
      decimal digits; \<open>NaN\<close> when there is no digit\<close>
  "parseInt s =
     (let t = dropWhile is_space s;
          sgn_rest = (case t of
                        c # r \<Rightarrow> if c = CHR ''-'' then (- 1, r)
                                  else if c = CHR ''+'' then (1, r) else (1, t)
                      | [] \<Rightarrow> (1, t));
          ds = takeWhile is_digit (snd sgn_rest)
      in if ds = [] then NaN else Num (fst sgn_rest * digits_val ds))"

section \<open>Regular expressions\<close>

text \<open>
  The parser is written with regular-expression literals. They are kept as terms of the
  type \<open>regex\<close> and run by a backtracking matcher with the priorities of the JavaScript
  one: the alternatives of \<open>|\<close> in order, \<open>?\<close>, \<open>+\<close> and \<open>{m,n}\<close> greedy, the leftmost
  start first. The literals of the source apply \<open>+\<close> and \<open>{m,n}\<close> to character classes only.
\<close>

datatype regex =
    Eps
  | Lit string
  | Cls "char \<Rightarrow> bool"
  | WordB
  | Bol
  | Eol
  | Seq regex regex
  | Alt regex regex
  | Opt regex
  | Plus "char \<Rightarrow> bool"
  | Rep "char \<Rightarrow> bool" nat nat
  | Grp regex

text \<open>
  A position in the subject is the consumed text, reversed, and the text still to read.
  A matcher state adds the captured groups, in the order in which they closed.
\<close>

type_synonym zipper = "string \<times> string"
type_synonym mstate = "zipper \<times> string list"

definition word_boundary :: "string \<Rightarrow> string \<Rightarrow> bool" where
  "word_boundary b a =
     ((case b of [] \<Rightarrow> False | c # _ \<Rightarrow> is_word c) \<noteq> (case a of [] \<Rightarrow> False | c # _ \<Rightarrow> is_word c))"

definition advance :: "nat \<Rightarrow> mstate \<Rightarrow> mstate" where
  "advance n st = (case st of ((b, a), caps) \<Rightarrow> ((rev (take n a) @ b, drop n a), caps))"

definition consumed :: "string \<Rightarrow> string \<Rightarrow> string" where
  \<comment> \<open>the text read between the position with prefix \<open>b\<close> and a later one with prefix \<open>b'\<close>\<close>
  "consumed b b' = rev (take (length b' - length b) b')"

fun ms :: "regex \<Rightarrow> mstate \<Rightarrow> mstate list" where
  "ms Eps st = [st]"
| "ms (Lit cs) st = (if starts_with cs (snd (fst st)) then [advance (length cs) st] else [])"
| "ms (Cls P) st =
     (case snd (fst st) of [] \<Rightarrow> [] | c # _ \<Rightarrow> if P c then [advance 1 st] else [])"
| "ms WordB st = (if word_boundary (fst (fst st)) (snd (fst st)) then [st] else [])"
| "ms Bol st = (if fst (fst st) = [] then [st] else [])"
| "ms Eol st = (if snd (fst st) = [] then [st] else [])"
| "ms (Seq r1 r2) st = concat (map (ms r2) (ms r1 st))"
| "ms (Alt r1 r2) st = ms r1 st @ ms r2 st"
| "ms (Opt r) st = ms r st @ [st]"
| "ms (Plus P) st =
     map (\<lambda>n. advance n st) (rev [1 ..< Suc (length (takeWhile P (snd (fst st))))])"
| "ms (Rep P lo hi) st =
     map (\<lambda>n. advance n st) (rev [lo ..< Suc (min hi (length (takeWhile P (snd (fst st)))))])"
| "ms (Grp r) st =
     map (\<lambda>st'. (fst st', snd st' @ [consumed (fst (fst st)) (fst (fst st'))])) (ms r st)"

definition seqs :: "regex list \<Rightarrow> regex" where
  "seqs rs = foldr Seq rs Eps"

fun alts :: "regex list \<Rightarrow> regex" where
  \<comment> \<open>\<open>(?:r1|r2|...)\<close>\<close>
  "alts [] = Eps"
| "alts [r] = r"
| "alts (r # rs) = Alt r (alts rs)"

text \<open>A successful match: \<open>m[0]\<close> and the groups \<open>m[1]\<close>, \<open>m[2]\<close>, ...\<close>

record re_result =
  m_text :: string
  m_groups :: "string list"

fun re_find :: "regex \<Rightarrow> string \<Rightarrow> string \<Rightarrow> (string \<times> mstate) option" where
  "re_find r b [] = (case ms r ((b, []), []) of [] \<Rightarrow> None | st # _ \<Rightarrow> Some (b, st))"
| "re_find r b (c # cs) =
     (case ms r ((b, c # cs), []) of [] \<Rightarrow> re_find r (c # b) cs | st # _ \<Rightarrow> Some (b, st))"

definition re_match :: "regex \<Rightarrow> string \<Rightarrow> re_result option" where
  \<comment> \<open>\<open>s.match(r)\<close> without the \<open>g\<close> flag\<close>
  "re_match r s =
     (case re_find r [] s of None \<Rightarrow> None
      | Some (b, st) \<Rightarrow> Some \<lparr>m_text = consumed b (fst (fst st)), m_groups = snd st\<rparr>)"

definition re_test :: "regex \<Rightarrow> string \<Rightarrow> bool" where
  \<comment> \<open>\<open>r.test(s)\<close>\<close>
  "re_test r s = (re_find r [] s \<noteq> None)"

function match_all_from :: "regex \<Rightarrow> string \<Rightarrow> string \<Rightarrow> string list" where
  "match_all_from r b a =
     (case ms r ((b, a), []) of
        [] \<Rightarrow> (case a of [] \<Rightarrow> [] | c # cs \<Rightarrow> match_all_from r (c # b) cs)
      | st # _ \<Rightarrow>
          if length (snd (fst st)) < length a
          then consumed b (fst (fst st)) # match_all_from r (fst (fst st)) (snd (fst st))
          else (case a of [] \<Rightarrow> [consumed b (fst (fst st))]
                | c # cs \<Rightarrow> consumed b (fst (fst st)) # match_all_from r (c # b) cs))"
  by pat_completeness auto
termination
  by (relation "measure (\<lambda>(r, b, a). length a)") auto

declare match_all_from.simps [simp del]

definition match_all :: "regex \<Rightarrow> string \<Rightarrow> string list" where
  \<comment> \<open>\<open>s.match(r)\<close> with the \<open>g\<close> flag; \<open>null\<close> is the empty list\<close>
  "match_all r s = match_all_from r [] s"

function replace_from :: "regex \<Rightarrow> string \<Rightarrow> string \<Rightarrow> string \<Rightarrow> string" where
  "replace_from r rep b a =
     (case ms r ((b, a), []) of
        [] \<Rightarrow> (case a of [] \<Rightarrow> [] | c # cs \<Rightarrow> c # replace_from r rep (c # b) cs)
      | st # _ \<Rightarrow>
          if length (snd (fst st)) < length a
          then rep @ replace_from r rep (fst (fst st)) (snd (fst st))
          else (case a of [] \<Rightarrow> rep
                | c # cs \<Rightarrow> rep @ c # replace_from r rep (c # b) cs))"
  by pat_completeness auto
termination
  by (relation "measure (\<lambda>(r, rep, b, a). length a)") auto

declare replace_from.simps [simp del]

definition replace_all :: "regex \<Rightarrow> string \<Rightarrow> string \<Rightarrow> string" where
  \<comment> \<open>\<open>s.replace(r, rep)\<close> with the \<open>g\<close> flag\<close>
  "replace_all r rep s = replace_from r rep [] s"

section \<open>The voice command parser\<close>

definition MAIN_COLS :: int where "MAIN_COLS = 12"
definition MAIN_ROWS :: int where "MAIN_ROWS = 2"
definition MAIN_COUNT :: int where "MAIN_COUNT = MAIN_COLS * MAIN_ROWS"
definition SUB_PER_CELL :: int where "SUB_PER_CELL = 9"

datatype sub_action = ActToggle | ActTurnOn | ActTurnOff

text \<open>
  The values of the type \<open>VoiceCommand\<close> except \<open>null\<close>, which is \<open>None\<close>. The parser
  also returns objects of type \<open>applyToSub\<close>, which the union in \<open>types.ts\<close> does not list.
\<close>

datatype VoiceCommand =
    NextCell
  | PrevCell
  | GoToCell jsnum
  | CellNotFound jsnum
  | SelectSub jsnum
  | SelectSubCells "jsnum list"
  | ApplyToSub jsnum sub_action
  | Toggle
  | TurnOn
  | TurnOff

definition normalize :: "string \<Rightarrow> string" where
  "normalize text = replace_all (Plus is_space) '' '' (trim (toLowerCase text))"

subsection \<open>Sub-cell position and cell number\<close>

definition re_subNum :: regex where
  \<comment> \<open>\<open>/\b(?:select\s+)?([1-9])\b/\<close>\<close>
  "re_subNum = seqs [WordB, Opt (seqs [Lit ''select'', Plus is_space]), Grp (Cls is_digit19), WordB]"

definition posMap :: "(string \<times> jsnum) list" where
  \<comment> \<open>the entries of the object literal, in insertion order\<close>
  "posMap =
     [(''top left'', Num 0), (''top center'', Num 1), (''top right'', Num 2),
      (''middle left'', Num 3), (''center'', Num 4), (''middle right'', Num 5),
      (''bottom left'', Num 6), (''bottom center'', Num 7), (''bottom right'', Num 8),
      (''left'', Num 0), (''right'', Num 2), (''middle'', Num 4)]"

definition parseSubCellPosition :: "string \<Rightarrow> jsnum option" where
  "parseSubCellPosition text =
     (let n = normalize text
      in case re_match re_subNum n of
           Some numMatch \<Rightarrow>
             Some (js_sub (js_min (Num 9) (js_max (Num 1) (parseInt (m_groups numMatch ! 0)))) (Num 1))
         | None \<Rightarrow>
             (case find (\<lambda>(key, idx). str_includes n key) posMap of
                Some (key, idx) \<Rightarrow> Some idx
              | None \<Rightarrow> None))"

definition re_cell :: regex where
  \<comment> \<open>\<open>/\b(?:go\s+to\s+)?(?:cell|block)\s+(\d{1,2})\b/\<close>\<close>
  "re_cell =
     seqs [WordB, Opt (seqs [Lit ''go'', Plus is_space, Lit ''to'', Plus is_space]),
           alts [Lit ''cell'', Lit ''block''], Plus is_space, Grp (Rep is_digit 1 2), WordB]"

definition re_rowCol :: regex where
  \<comment> \<open>\<open>/\brow\s+(\d)\s+col(?:umn)?\s+(\d+)\b/\<close>\<close>
  "re_rowCol =
     seqs [WordB, Lit ''row'', Plus is_space, Grp (Cls is_digit), Plus is_space,
           Lit ''col'', Opt (Lit ''umn''), Plus is_space, Grp (Plus is_digit), WordB]"

definition parseCellNumber :: "string \<Rightarrow> jsnum option" where
  "parseCellNumber text =
     (let n = normalize text;
          fromCell =
            (case re_match re_cell n of
               Some cellMatch \<Rightarrow>
                 (let num = parseInt (m_groups cellMatch ! 0)
                  in if js_le (Num 1) num \<and> js_le num (Num MAIN_COUNT)
                     then Some (js_sub num (Num 1)) else None)
             | None \<Rightarrow> None)
      in case fromCell of
           Some idx \<Rightarrow> Some idx
         | None \<Rightarrow>
             (case re_match re_rowCol n of
                Some rowColMatch \<Rightarrow>
                  (let row = parseInt (m_groups rowColMatch ! 0);
                       col = parseInt (m_groups rowColMatch ! 1)
                   in if js_le (Num 1) row \<and> js_le row (Num 2) \<and> js_le (Num 1) col \<and> js_le col (Num 12)
                      then Some (js_add (js_mul (js_sub row (Num 1)) (Num 12)) (js_sub col (Num 1)))
                      else None)
              | None \<Rightarrow> None))"

subsection \<open>The list of sub-cells\<close>

definition new_Set :: "'a list \<Rightarrow> 'a list" where
  \<comment> \<open>\<open>[...new Set(xs)]\<close>: the first occurrence of each value, in order\<close>
  "new_Set xs = foldl (\<lambda>acc x. if x \<in> set acc then acc else acc @ [x]) [] xs"

fun insert_asc :: "jsnum \<Rightarrow> jsnum list \<Rightarrow> jsnum list" where
  "insert_asc x [] = [x]"
| "insert_asc x (y # ys) =
     (if js_lt (Num 0) (js_sub x y) then y # insert_asc x ys else x # y # ys)"

definition sort_asc :: "jsnum list \<Rightarrow> jsnum list" where
  \<comment> \<open>\<open>xs.sort((a, b) => a - b)\<close>, as an insertion sort with that comparator\<close>
  "sort_asc xs = foldr insert_asc xs []"

definition re_and :: regex where
  \<comment> \<open>\<open>/\band\b/g\<close>\<close>
  "re_and = seqs [WordB, Lit ''and'', WordB]"

definition re_digit19 :: regex where
  \<comment> \<open>\<open>/\b[1-9]\b/g\<close>\<close>
  "re_digit19 = seqs [WordB, Cls is_digit19, WordB]"

definition parseSubCellList :: "string \<Rightarrow> jsnum list" where
  "parseSubCellList rest =
     (let normalized = replace_all (Lit '','') '' '' (replace_all re_and '' '' rest);
          numbers = match_all re_digit19 normalized
      in if numbers = [] then []
         else sort_asc (new_Set (map (\<lambda>x. js_sub (parseInt x) (Num 1)) numbers)))"

subsection \<open>parseVoiceCommand\<close>

definition re_next :: regex where
  \<comment> \<open>\<open>/\b(?:next|go\s+to\s+next)\s+cell\b/\<close>\<close>
  "re_next =
     seqs [WordB, alts [Lit ''next'', seqs [Lit ''go'', Plus is_space, Lit ''to'', Plus is_space, Lit ''next'']],
           Plus is_space, Lit ''cell'', WordB]"

definition re_prev :: regex where
  \<comment> \<open>\<open>/\b(?:previous|prev|go\s+to\s+previous)\s+cell\b/\<close>\<close>
  "re_prev =
     seqs [WordB, alts [Lit ''previous'', Lit ''prev'',
                        seqs [Lit ''go'', Plus is_space, Lit ''to'', Plus is_space, Lit ''previous'']],
           Plus is_space, Lit ''cell'', WordB]"

definition re_selectCell :: regex where
  \<comment> \<open>\<open>/\bselect\s+(?:block|cell)\s+(?:number\s+)?(\d{1,2})\b/\<close>\<close>
  "re_selectCell =
     seqs [WordB, Lit ''select'', Plus is_space, alts [Lit ''block'', Lit ''cell''], Plus is_space,
           Opt (seqs [Lit ''number'', Plus is_space]), Grp (Rep is_digit 1 2), WordB]"

definition re_toggleSubCell :: regex where
  \<comment> \<open>\<open>/\btoggle\s+cell\s+(?:number\s+)?([1-9]|one|two|three|four|five|six|seven|eight|nine)\b/\<close>\<close>
  "re_toggleSubCell =
     seqs [WordB, Lit ''toggle'', Plus is_space, Lit ''cell'', Plus is_space,
           Opt (seqs [Lit ''number'', Plus is_space]),
           Grp (alts [Cls is_digit19, Lit ''one'', Lit ''two'', Lit ''three'', Lit ''four'',
                      Lit ''five'', Lit ''six'', Lit ''seven'', Lit ''eight'', Lit ''nine'']),
           WordB]"

definition digitMap :: "(string \<times> jsnum) list" where
  "digitMap =
     [(''one'', Num 1), (''two'', Num 2), (''three'', Num 3), (''four'', Num 4), (''five'', Num 5),
      (''six'', Num 6), (''seven'', Num 7), (''eight'', Num 8), (''nine'', Num 9)]"

definition re_subCells :: regex where
  \<comment> \<open>\<open>/\bselect\s+(?:sub\s+cells?|subcells?)\s+([\d\s, and]+)/\<close>\<close>
  "re_subCells =
     seqs [WordB, Lit ''select'', Plus is_space,
           alts [seqs [Lit ''sub'', Plus is_space, Lit ''cell'', Opt (Lit ''s'')],
                 seqs [Lit ''subcell'', Opt (Lit ''s'')]],
           Plus is_space, Grp (Plus is_list_char)]"

definition re_boxNum :: regex where
  \<comment> \<open>\<open>/\b(?:check|uncheck|toggle|mark|clear)\s+box\s+(?:number\s+)?([1-9])\b/\<close>\<close>
  "re_boxNum =
     seqs [WordB, alts [Lit ''check'', Lit ''uncheck'', Lit ''toggle'', Lit ''mark'', Lit ''clear''],
           Plus is_space, Lit ''box'', Plus is_space,
           Opt (seqs [Lit ''number'', Plus is_space]), Grp (Cls is_digit19), WordB]"

definition re_uncheckClear :: regex where
  \<comment> \<open>\<open>/^(?:uncheck|clear)$/\<close>\<close>
  "re_uncheckClear = seqs [Bol, alts [Lit ''uncheck'', Lit ''clear''], Eol]"

definition re_checkMark :: regex where
  \<comment> \<open>\<open>/^(?:check|mark)$/\<close>\<close>
  "re_checkMark = seqs [Bol, alts [Lit ''check'', Lit ''mark''], Eol]"

definition re_toggleAll :: regex where
  \<comment> \<open>\<open>/\btoggle\s+all\b/\<close>\<close>
  "re_toggleAll = seqs [WordB, Lit ''toggle'', Plus is_space, Lit ''all'', WordB]"

definition re_turnOn :: regex where
  \<comment> \<open>\<open>/\b(?:turn\s+on|mark|enable|set\s+on|check)\b/\<close>\<close>
  "re_turnOn =
     seqs [WordB, alts [seqs [Lit ''turn'', Plus is_space, Lit ''on''], Lit ''mark'', Lit ''enable'',
                        seqs [Lit ''set'', Plus is_space, Lit ''on''], Lit ''check''],
           WordB]"

definition re_turnOff :: regex where
  \<comment> \<open>\<open>/\b(?:turn\s+off|clear|unmark|disable|set\s+off|uncheck)\b/\<close>\<close>
  "re_turnOff =
     seqs [WordB, alts [seqs [Lit ''turn'', Plus is_space, Lit ''off''], Lit ''clear'', Lit ''unmark'',
                        Lit ''disable'', seqs [Lit ''set'', Plus is_space, Lit ''off''], Lit ''uncheck''],
           WordB]"

definition split_spaces_first :: "string \<Rightarrow> string" where
  \<comment> \<open>\<open>s.split(/\s+/)[0]\<close>: the text before the first white space\<close>
  "split_spaces_first s = takeWhile (\<lambda>c. \<not> is_space c) s"

definition parseVoiceCommand :: "jsval \<Rightarrow> VoiceCommand option" where
  "parseVoiceCommand v =
     (case v of
        JNonString \<Rightarrow> None
      | JString transcript \<Rightarrow>
          if transcript = [] then None
          else
            (let n = normalize transcript
             in if re_test re_next n \<or> n = ''next'' then Some NextCell
                else if re_test re_prev n \<or> n = ''previous'' \<or> n = ''prev'' then Some PrevCell
                else
                  (case re_match re_selectCell n of
                     Some selectCellMatch \<Rightarrow>
                       (let requested = parseInt (m_groups selectCellMatch ! 0)
                        in if js_le (Num 1) requested \<and> js_le requested (Num MAIN_COUNT)
                           then Some (GoToCell (js_sub requested (Num 1)))
                           else Some (CellNotFound requested))
                   | None \<Rightarrow>
                  (case re_match re_toggleSubCell n of
                     Some toggleSubCellMatch \<Rightarrow>
                       (let wordOrDigit = toLowerCase (m_groups toggleSubCellMatch ! 0);
                            num = (case map_of digitMap wordOrDigit of
                                     Some d \<Rightarrow> d
                                   | None \<Rightarrow> parseInt wordOrDigit);
                            subIndex = js_max (Num 0) (js_min (Num 8) (js_sub num (Num 1)))
                        in Some (ApplyToSub subIndex ActToggle))
                   | None \<Rightarrow>
                  (case parseCellNumber transcript of
                     Some cellNum \<Rightarrow> Some (GoToCell cellNum)
                   | None \<Rightarrow>
                  (case (case re_match re_subCells n of
                           Some subCellsMatch \<Rightarrow>
                             (let indices = parseSubCellList (m_groups subCellsMatch ! 0)
                              in if indices \<noteq> [] then Some (SelectSubCells indices) else None)
                         | None \<Rightarrow> None) of
                     Some cmd \<Rightarrow> Some cmd
                   | None \<Rightarrow>
                  (case (if str_includes n ''select''
                         then (case parseSubCellPosition transcript of
                                 Some subIdx \<Rightarrow> Some (SelectSub subIdx)
                               | None \<Rightarrow> None)
                         else None) of
                     Some cmd \<Rightarrow> Some cmd
                   | None \<Rightarrow>
                  (case re_match re_boxNum n of
                     Some boxNumMatch \<Rightarrow>
                       (let actionWord = split_spaces_first (m_text boxNumMatch);
                            subIndex = js_sub (parseInt (m_groups boxNumMatch ! 0)) (Num 1);
                            action = (if re_test re_uncheckClear actionWord then ActTurnOff
                                      else if re_test re_checkMark actionWord then ActTurnOn
                                      else ActToggle)
                        in Some (ApplyToSub subIndex action))
                   | None \<Rightarrow>
                       if re_test re_toggleAll n then Some Toggle
                       else if re_test re_turnOn n then Some TurnOn
                       else if re_test re_turnOff n then Some TurnOff
                       else None))))))))"

section \<open>The grid state and the command dispatcher\<close>

record GridFocus =
  activeCellIndex :: jsnum
  focusedSubIndex :: "jsnum option"
  selectedSubIndices :: "jsnum list"

text \<open>
  The state that \<open>handleVoiceCommand\<close> reads and writes: the grid and the focus of
  \<open>useGridState\<close>, its flash flag, and the two feedback messages of \<open>App\<close>. The timers
  that clear the flag and the messages later are not part of a dispatch step.
\<close>

record AppState =
  grid :: "bool list list"
  focus :: GridFocus
  lastCommandFlash :: bool
  unrecognizedMessage :: "string option"
  cellNotFoundMessage :: "string option"

definition createInitialGrid :: "bool list list" where
  "createInitialGrid = replicate (nat MAIN_COUNT) (replicate (nat SUB_PER_CELL) False)"

definition setActiveCell :: "jsnum \<Rightarrow> GridFocus \<Rightarrow> GridFocus" where
  "setActiveCell index f =
     (let clamped = js_max (Num 0) (js_min (Num (MAIN_COUNT - 1)) index)
      in f\<lparr>activeCellIndex := clamped, focusedSubIndex := None, selectedSubIndices := []\<rparr>)"

definition setFocusedSub :: "jsnum option \<Rightarrow> GridFocus \<Rightarrow> GridFocus" where
  "setFocusedSub subIndex f =
     (case subIndex of
        Some i \<Rightarrow> if js_lt i (Num 0) \<or> js_le (Num SUB_PER_CELL) i then f
                  else f\<lparr>focusedSubIndex := subIndex\<rparr>
      | None \<Rightarrow> f\<lparr>focusedSubIndex := subIndex\<rparr>)"

definition setSelectedSubIndices :: "jsnum list \<Rightarrow> GridFocus \<Rightarrow> GridFocus" where
  "setSelectedSubIndices indices f =
     (let valid = filter (\<lambda>i. js_le (Num 0) i \<and> js_lt i (Num SUB_PER_CELL)) indices
      in f\<lparr>selectedSubIndices := valid\<rparr>)"

definition toggleSub :: "jsnum \<Rightarrow> jsnum \<Rightarrow> bool option \<Rightarrow> bool list list \<Rightarrow> bool list list" where
  "toggleSub cellIndex subIndex val g =
     map (\<lambda>(i, row).
            if Num (int i) = cellIndex
            then map (\<lambda>(j, v). if Num (int j) = subIndex
                               then (case val of Some b \<Rightarrow> b | None \<Rightarrow> \<not> v) else v)
                     (enumerate 0 row)
            else row)
         (enumerate 0 g)"

definition triggerCommandFlash :: "AppState \<Rightarrow> AppState" where
  "triggerCommandFlash st = st\<lparr>lastCommandFlash := True\<rparr>"

definition applyVoiceCommand :: "jsnum \<Rightarrow> jsnum option \<Rightarrow> sub_action \<Rightarrow> AppState \<Rightarrow> AppState" where
  "applyVoiceCommand cellIndex subIndex type st =
     (let next = (if type = ActToggle then None else Some (type = ActTurnOn));
          g = (case subIndex of
                 None \<Rightarrow> foldl (\<lambda>g i. toggleSub cellIndex (Num (int i)) next g) (grid st)
                                 [0 ..< nat SUB_PER_CELL]
               | Some i \<Rightarrow> toggleSub cellIndex i next (grid st))
      in triggerCommandFlash (st\<lparr>grid := g\<rparr>))"

function show_nat :: "nat \<Rightarrow> string" where
  "show_nat n = (if n < 10 then [char_of (48 + n)] else show_nat (n div 10) @ [char_of (48 + n mod 10)])"
  by pat_completeness auto
termination
  by (relation "measure id") auto

declare show_nat.simps [simp del]

definition js_toString :: "jsnum \<Rightarrow> string" where
  \<comment> \<open>a number inside a template literal\<close>
  "js_toString x =
     (case x of NaN \<Rightarrow> ''NaN''
      | Num i \<Rightarrow> if i < 0 then CHR ''-'' # show_nat (nat (- i)) else show_nat (nat i))"

definition msgUnrecognized :: string where
  \<open>msgUnrecognized = ''Command not understood. Try "next cell", "select center", "toggle".''\<close>

definition handleVoiceCommand :: "VoiceCommand option \<Rightarrow> string \<Rightarrow> AppState \<Rightarrow> AppState" where
  "handleVoiceCommand cmd transcript st =
     (case cmd of
        None \<Rightarrow>
          if trim transcript \<noteq> [] then st\<lparr>unrecognizedMessage := Some msgUnrecognized\<rparr> else st
      | Some c \<Rightarrow>
          (let activeCellIndex = activeCellIndex (focus st);
               focusedSubIndex = focusedSubIndex (focus st)
           in case c of
                NextCell \<Rightarrow>
                  triggerCommandFlash
                    (st\<lparr>focus := setActiveCell (js_add activeCellIndex (Num 1)) (focus st)\<rparr>)
              | PrevCell \<Rightarrow>
                  triggerCommandFlash
                    (st\<lparr>focus := setActiveCell (js_sub activeCellIndex (Num 1)) (focus st)\<rparr>)
              | GoToCell index \<Rightarrow>
                  triggerCommandFlash (st\<lparr>focus := setActiveCell index (focus st)\<rparr>)
              | CellNotFound requested \<Rightarrow>
                  st\<lparr>cellNotFoundMessage :=
                       Some (''Cell '' @ js_toString requested @ '' not found. Cells are 1 to ''
                             @ js_toString (Num MAIN_COUNT) @ ''.'')\<rparr>
              | SelectSub index \<Rightarrow>
                  triggerCommandFlash (st\<lparr>focus := setFocusedSub (Some index) (focus st)\<rparr>)
              | SelectSubCells indices \<Rightarrow>
                  triggerCommandFlash (st\<lparr>focus := setSelectedSubIndices indices (focus st)\<rparr>)
              | Toggle \<Rightarrow> applyVoiceCommand activeCellIndex focusedSubIndex ActToggle st
              | TurnOn \<Rightarrow> applyVoiceCommand activeCellIndex focusedSubIndex ActTurnOn st
              | TurnOff \<Rightarrow> applyVoiceCommand activeCellIndex focusedSubIndex ActTurnOff st
              | ApplyToSub subIndex action \<Rightarrow> st))"

section \<open>Specification predicates\<close>

text \<open>An index that is a number between \<open>lo\<close> and \<open>hi\<close>, and not \<open>NaN\<close>.\<close>

definition in_range :: "int \<Rightarrow> int \<Rightarrow> jsnum \<Rightarrow> bool" where
  "in_range lo hi x = (case x of NaN \<Rightarrow> False | Num k \<Rightarrow> lo \<le> k \<and> k \<le> hi)"

fun wf_command :: "VoiceCommand \<Rightarrow> bool" where
  "wf_command (GoToCell i) = in_range 0 23 i"
| "wf_command (SelectSub i) = in_range 0 8 i"
| "wf_command (SelectSubCells is) = (list_all (in_range 0 8) is \<and> sorted_wrt js_lt is)"
| "wf_command (ApplyToSub i a) = in_range 0 8 i"
| "wf_command _ = True"

definition wf_result :: "VoiceCommand option \<Rightarrow> bool" where
  "wf_result r = (case r of None \<Rightarrow> True | Some c \<Rightarrow> wf_command c)"

text \<open>
  The words a regular expression can read, whatever stands around them, and the shape of
  the expressions whose groups all lie on the top-level sequence.
\<close>

fun lang :: "regex \<Rightarrow> string set" where
  "lang Eps = {[]}"
| "lang (Lit cs) = {cs}"
| "lang (Cls P) = {[c] | c. P c}"
| "lang WordB = {[]}"
| "lang Bol = {[]}"
| "lang Eol = {[]}"
| "lang (Seq r1 r2) = {w1 @ w2 | w1 w2. w1 \<in> lang r1 \<and> w2 \<in> lang r2}"
| "lang (Alt r1 r2) = lang r1 \<union> lang r2"
| "lang (Opt r) = insert [] (lang r)"
| "lang (Plus P) = {w. w \<noteq> [] \<and> list_all P w}"
| "lang (Rep P lo hi) = {w. lo \<le> length w \<and> length w \<le> hi \<and> list_all P w}"
| "lang (Grp r) = lang r"

fun nogrp :: "regex \<Rightarrow> bool" where
  "nogrp (Grp r) = False"
| "nogrp (Seq r1 r2) = (nogrp r1 \<and> nogrp r2)"
| "nogrp (Alt r1 r2) = (nogrp r1 \<and> nogrp r2)"
| "nogrp (Opt r) = nogrp r"
| "nogrp _ = True"

fun linear :: "regex \<Rightarrow> bool" where
  "linear (Seq r1 r2) = (linear r1 \<and> linear r2)"
| "linear (Grp r) = nogrp r"
| "linear r = nogrp r"

fun grp_langs :: "regex \<Rightarrow> string set list" where
  "grp_langs (Seq r1 r2) = grp_langs r1 @ grp_langs r2"
| "grp_langs (Grp r) = [lang r]"
| "grp_langs _ = []"

definition reads :: "mstate \<Rightarrow> string \<Rightarrow> mstate \<Rightarrow> bool" where
  \<comment> \<open>the matcher went from \<open>st\<close> to \<open>st'\<close> by reading \<open>w\<close>\<close>
  "reads st w st' = (snd (fst st) = w @ snd (fst st') \<and> fst (fst st') = rev w @ fst (fst st))"

section \<open>The matcher reads words of the expression\<close>

lemma starts_with_append: "starts_with cs a \<Longrightarrow> a = cs @ drop (length cs) a"
  by (induction cs a rule: starts_with.induct) auto

lemma advance_simp: "advance n ((b, a), caps) = ((rev (take n a) @ b, drop n a), caps)"
  by (simp add: advance_def)

lemma reads_advance: "n \<le> length (snd (fst st)) \<Longrightarrow> reads st (take n (snd (fst st))) (advance n st)"
  by (cases st) (auto simp: reads_def advance_def)

lemma reads_refl: "reads st [] st"
  by (simp add: reads_def)

lemma reads_trans: "reads st w1 st' \<Longrightarrow> reads st' w2 st'' \<Longrightarrow> reads st (w1 @ w2) st''"
  by (simp add: reads_def)

lemma take_takeWhile_all: "n \<le> length (takeWhile P a) \<Longrightarrow> list_all P (take n a)"
proof -
  assume n: "n \<le> length (takeWhile P a)"
  have "take n (takeWhile P a @ dropWhile P a) = take n (takeWhile P a)"
    using n by (simp del: takeWhile_dropWhile_id)
  then have "take n a = take n (takeWhile P a)" by simp
  then have "set (take n a) \<subseteq> set (takeWhile P a)" by (simp add: set_take_subset)
  then show ?thesis by (auto simp: list_all_iff dest: set_takeWhileD)
qed

lemma ms_sound: "st' \<in> set (ms r st) \<Longrightarrow> \<exists>w. reads st w st' \<and> w \<in> lang r"
proof (induction r arbitrary: st st')
  case Eps
  then show ?case by (auto simp: reads_refl)
next
  case (Lit cs)
  then have sw: "starts_with cs (snd (fst st))" and st': "st' = advance (length cs) st"
    by (auto split: if_splits)
  from starts_with_append[OF sw] have a: "snd (fst st) = cs @ drop (length cs) (snd (fst st))" .
  then have "length cs \<le> length (snd (fst st))"
    by (metis length_append le_add1)
  from reads_advance[OF this] a st' have "reads st cs st'"
    by (metis append_eq_conv_conj)
  then show ?case by auto
next
  case (Cls P)
  then obtain c cs where a: "snd (fst st) = c # cs" and P: "P c" and st': "st' = advance 1 st"
    by (cases "snd (fst st)") (auto split: if_splits)
  have "reads st (take 1 (snd (fst st))) (advance 1 st)"
    by (rule reads_advance) (simp add: a)
  then have "reads st [c] st'" using a st' by simp
  then show ?case using P by auto
next
  case WordB
  then show ?case by (auto simp: reads_refl split: if_splits)
next
  case Bol
  then show ?case by (auto simp: reads_refl split: if_splits)
next
  case Eol
  then show ?case by (auto simp: reads_refl split: if_splits)
next
  case (Seq r1 r2)
  from Seq.prems obtain st1 where s1: "st1 \<in> set (ms r1 st)" and s2: "st' \<in> set (ms r2 st1)"
    by auto
  from Seq.IH(1)[OF s1] obtain w1 where w1: "reads st w1 st1" "w1 \<in> lang r1" by blast
  from Seq.IH(2)[OF s2] obtain w2 where w2: "reads st1 w2 st'" "w2 \<in> lang r2" by blast
  from reads_trans[OF w1(1) w2(1)] w1(2) w2(2) show ?case by auto
next
  case (Alt r1 r2)
  from Alt.prems consider "st' \<in> set (ms r1 st)" | "st' \<in> set (ms r2 st)" by auto
  then show ?case
  proof cases
    case 1
    from Alt.IH(1)[OF 1] show ?thesis by auto
  next
    case 2
    from Alt.IH(2)[OF 2] show ?thesis by auto
  qed
next
  case (Opt r)
  from Opt.prems consider "st' \<in> set (ms r st)" | "st' = st" by auto
  then show ?case
  proof cases
    case 1
    from Opt.IH[OF 1] show ?thesis by auto
  next
    case 2
    then show ?thesis by (auto intro!: exI[of _ "[]"] simp: reads_refl)
  qed
next
  case (Plus P)
  then have "st' \<in> (\<lambda>n. advance n st) ` {1 ..< Suc (length (takeWhile P (snd (fst st))))}"
    by (simp del: upt_Suc)
  then obtain n where "1 \<le> n" "n < Suc (length (takeWhile P (snd (fst st))))"
    and st': "st' = advance n st"
    by auto
  then have n: "1 \<le> n" "n \<le> length (takeWhile P (snd (fst st)))"
    by simp_all
  have le: "n \<le> length (snd (fst st))"
    using n(2) length_takeWhile_le[of P "snd (fst st)"] by linarith
  have "reads st (take n (snd (fst st))) st'" using reads_advance[OF le] st' by simp
  moreover have "list_all P (take n (snd (fst st)))" using n(2) by (rule take_takeWhile_all)
  moreover have "take n (snd (fst st)) \<noteq> []" using n(1) le by auto
  ultimately show ?case by auto
next
  case (Rep P lo hi)
  then have "st' \<in> (\<lambda>n. advance n st) ` {lo ..< Suc (min hi (length (takeWhile P (snd (fst st)))))}"
    by (simp del: upt_Suc)
  then obtain n where "lo \<le> n" "n < Suc (min hi (length (takeWhile P (snd (fst st)))))"
    and st': "st' = advance n st"
    by auto
  then have n: "lo \<le> n" "n \<le> hi" "n \<le> length (takeWhile P (snd (fst st)))"
    by simp_all
  have le: "n \<le> length (snd (fst st))"
    using n(3) length_takeWhile_le[of P "snd (fst st)"] by linarith
  have "reads st (take n (snd (fst st))) st'" using reads_advance[OF le] st' by simp
  moreover have "list_all P (take n (snd (fst st)))" using n(3) by (rule take_takeWhile_all)
  moreover have "length (take n (snd (fst st))) = n" using le by simp
  ultimately show ?case using n(1,2) by auto
next
  case (Grp r)
  then obtain st0 where s0: "st0 \<in> set (ms r st)" and st': "st' = (fst st0, snd st0 @ [consumed (fst (fst st)) (fst (fst st0))])"
    by auto
  from Grp.IH[OF s0] obtain w where "reads st w st0" "w \<in> lang r" by blast
  then show ?case using st' by (auto simp: reads_def)
qed

lemma consumed_reads: "reads st w st' \<Longrightarrow> consumed (fst (fst st)) (fst (fst st')) = w"
  by (simp add: reads_def consumed_def)

lemma snd_advance: "snd (advance n st) = snd st"
  by (cases st) (auto simp: advance_def)

lemma ms_nogrp: "nogrp r \<Longrightarrow> st' \<in> set (ms r st) \<Longrightarrow> snd st' = snd st"
proof (induction r arbitrary: st st')
  case (Seq r1 r2)
  from Seq.prems obtain st1 where s1: "st1 \<in> set (ms r1 st)" and s2: "st' \<in> set (ms r2 st1)"
    by auto
  from Seq.prems have "nogrp r1" "nogrp r2" by auto
  with Seq.IH(1)[OF _ s1] Seq.IH(2)[OF _ s2] show ?case by simp
next
  case (Alt r1 r2)
  from Alt.prems consider "st' \<in> set (ms r1 st)" | "st' \<in> set (ms r2 st)" by auto
  then show ?case using Alt.IH Alt.prems(1) by cases auto
next
  case (Opt r)
  from Opt.prems consider "st' \<in> set (ms r st)" | "st' = st" by auto
  then show ?case using Opt.IH Opt.prems(1) by cases auto
qed (auto simp: snd_advance split: if_splits list.splits)

lemma grp_langs_nogrp: "nogrp r \<Longrightarrow> grp_langs r = []"
  by (induction r) auto

lemma ms_groups_nogrp:
  "nogrp r \<Longrightarrow> st' \<in> set (ms r st) \<Longrightarrow>
     \<exists>gs. snd st' = snd st @ gs \<and> list_all2 (\<lambda>g L. g \<in> L) gs (grp_langs r)"
  by (simp add: ms_nogrp grp_langs_nogrp)

lemma ms_groups:
  "linear r \<Longrightarrow> st' \<in> set (ms r st) \<Longrightarrow>
     \<exists>gs. snd st' = snd st @ gs \<and> list_all2 (\<lambda>g L. g \<in> L) gs (grp_langs r)"
proof (induction r arbitrary: st st')
  case (Seq r1 r2)
  from Seq.prems obtain st1 where s1: "st1 \<in> set (ms r1 st)" and s2: "st' \<in> set (ms r2 st1)"
    by auto
  from Seq.prems have l: "linear r1" "linear r2" by auto
  from Seq.IH(1)[OF l(1) s1] obtain g1 where g1: "snd st1 = snd st @ g1" "list_all2 (\<lambda>g L. g \<in> L) g1 (grp_langs r1)" by blast
  from Seq.IH(2)[OF l(2) s2] obtain g2 where g2: "snd st' = snd st1 @ g2" "list_all2 (\<lambda>g L. g \<in> L) g2 (grp_langs r2)" by blast
  have "snd st' = snd st @ (g1 @ g2)" using g1 g2 by simp
  moreover have "list_all2 (\<lambda>g L. g \<in> L) (g1 @ g2) (grp_langs (Seq r1 r2))"
    using g1(2) g2(2) by (simp add: list_all2_appendI)
  ultimately show ?case by blast
next
  case (Grp r)
  then obtain st0 where s0: "st0 \<in> set (ms r st)" and st': "st' = (fst st0, snd st0 @ [consumed (fst (fst st)) (fst (fst st0))])"
    by auto
  from Grp.prems have ng: "nogrp r" by simp
  from ms_sound[OF s0] obtain w where w: "reads st w st0" "w \<in> lang r" by blast
  from ms_nogrp[OF ng s0] consumed_reads[OF w(1)] st' w(2) show ?case by simp
qed (rule ms_groups_nogrp; simp)+

lemma re_find_SomeD: "re_find r b a = Some (b', st) \<Longrightarrow> \<exists>a'. st \<in> set (ms r ((b', a'), []))"
proof (induction a arbitrary: b)
  case Nil
  then show ?case
    by (cases "ms r ((b, []), [])") (auto intro!: exI[of _ "[]"])
next
  case (Cons c cs)
  show ?case
  proof (cases "ms r ((b, c # cs), [])")
    case Nil
    with Cons show ?thesis by simp
  next
    case (Cons st0 sts)
    with Cons.prems show ?thesis by (auto intro!: exI[of _ "c # cs"])
  qed
qed

lemma re_match_groups:
  "linear r \<Longrightarrow> re_match r s = Some m \<Longrightarrow> list_all2 (\<lambda>g L. g \<in> L) (m_groups m) (grp_langs r)"
proof -
  assume l: "linear r" and m: "re_match r s = Some m"
  from m obtain b st where f: "re_find r [] s = Some (b, st)" and mg: "m_groups m = snd st"
    by (auto simp: re_match_def split: option.splits)
  from re_find_SomeD[OF f] obtain a' where "st \<in> set (ms r ((b, a'), []))" by blast
  from ms_groups[OF l this] mg show ?thesis by auto
qed

lemma match_all_from_lang: "x \<in> set (match_all_from r b a) \<Longrightarrow> x \<in> lang r"
proof (induction r b a rule: match_all_from.induct)
  case (1 r b a)
  note eq = match_all_from.simps[of r b a]
  show ?case
  proof (cases "ms r ((b, a), [])")
    case Nil
    with 1 show ?thesis unfolding eq by (cases a) (auto simp del: match_all_from.simps)
  next
    case (Cons st sts)
    then have "st \<in> set (ms r ((b, a), []))" by simp
    from ms_sound[OF this] obtain w where w: "reads ((b, a), []) w st" "w \<in> lang r" by blast
    from consumed_reads[OF w(1)] have c: "consumed b (fst (fst st)) = w" by simp
    obtain b1 a1 c1 where st: "st = ((b1, a1), c1)" by (cases st) auto
    from 1 Cons c w(2) st show ?thesis unfolding eq
      by (cases a) (auto simp del: match_all_from.simps split: if_splits)
  qed
qed

section \<open>Numbers read from the captured groups\<close>

lemma digit_not_space: "is_digit c \<Longrightarrow> \<not> is_space c"
  by (auto simp: is_digit_def is_space_def)

lemma digit_not_sign: "is_digit c \<Longrightarrow> c \<noteq> CHR ''-'' \<and> c \<noteq> CHR ''+''"
  by (auto simp: is_digit_def)

lemma parseInt_digits:
  assumes "w \<noteq> []" and "list_all is_digit w"
  shows "parseInt w = Num (digits_val w)"
proof -
  from assms obtain c r where w: "w = c # r" and c: "is_digit c" by (cases w) auto
  from assms(2) have tw: "takeWhile is_digit w = w"
    by (simp add: list_all_iff takeWhile_eq_all_conv[THEN iffD2])
  have dw: "dropWhile is_space w = w" using w digit_not_space[OF c] by simp
  show ?thesis
    using tw dw w digit_not_sign[OF c] assms(1) by (simp add: parseInt_def Let_def)
qed

lemma digit19_digit: "is_digit19 c \<Longrightarrow> is_digit c"
  by (auto simp: is_digit19_def is_digit_def)

lemma digit_val_19: "is_digit19 c \<Longrightarrow> 1 \<le> digit_val c \<and> digit_val c \<le> 9"
  unfolding is_digit19_def by (auto simp: digit_val_def)

lemma parseInt_digit19:
  "is_digit19 c \<Longrightarrow> \<exists>k. parseInt [c] = Num k \<and> 1 \<le> k \<and> k \<le> 9"
  using parseInt_digits[of "[c]"] digit19_digit[of c] digit_val_19[of c]
  by (simp add: digits_val_def)

lemma toLowerCase_digit19: "is_digit19 c \<Longrightarrow> toLowerCase [c] = [c]"
  unfolding is_digit19_def by (auto simp: toLowerCase_def toLowerCase_char_def)

lemma toggle_num_digit:
  "is_digit19 c \<Longrightarrow>
     in_range 1 9 (case map_of digitMap (toLowerCase [c]) of Some d \<Rightarrow> d | None \<Rightarrow> parseInt (toLowerCase [c]))"
  using parseInt_digit19[of c] toLowerCase_digit19[of c]
  by (auto simp: digitMap_def in_range_def)

lemma toggle_num_words:
  "w \<in> set (map fst digitMap) \<Longrightarrow>
     in_range 1 9 (case map_of digitMap (toLowerCase w) of Some d \<Rightarrow> d | None \<Rightarrow> parseInt (toLowerCase w))"
  by (auto simp: digitMap_def in_range_def toLowerCase_def toLowerCase_char_def)

lemma lang_toggle_group:
  assumes "g \<in> lang (alts [Cls is_digit19, Lit ''one'', Lit ''two'', Lit ''three'', Lit ''four'',
               Lit ''five'', Lit ''six'', Lit ''seven'', Lit ''eight'', Lit ''nine''])"
  shows "(\<exists>c. g = [c] \<and> is_digit19 c) \<or> g \<in> set (map fst digitMap)"
  using assms
  apply (simp only: alts.simps lang.simps Un_iff singleton_iff mem_Collect_eq insert_iff empty_iff)
  apply (elim disjE exE conjE FalseE)
  apply (simp_all add: digitMap_def)
  done

lemma single_group:
  "list_all2 (\<lambda>g L. g \<in> L) gs [L] \<Longrightarrow> \<exists>g. gs = [g] \<and> g \<in> L"
  by (auto simp: list_all2_Cons2)

lemma re_subNum_group:
  assumes "re_match re_subNum n = Some m"
  shows "\<exists>c. m_groups m = [c] # [] \<and> is_digit19 c"
proof -
  have "linear re_subNum" by (simp add: re_subNum_def seqs_def)
  from re_match_groups[OF this assms] have "list_all2 (\<lambda>g L. g \<in> L) (m_groups m) [lang (Cls is_digit19)]"
    by (simp add: re_subNum_def seqs_def)
  from single_group[OF this] show ?thesis by auto
qed

lemma re_boxNum_group:
  assumes "re_match re_boxNum n = Some m"
  shows "\<exists>c. m_groups m = [c] # [] \<and> is_digit19 c"
proof -
  have "linear re_boxNum" by (simp add: re_boxNum_def seqs_def)
  from re_match_groups[OF this assms] have "list_all2 (\<lambda>g L. g \<in> L) (m_groups m) [lang (Cls is_digit19)]"
    by (simp add: re_boxNum_def seqs_def)
  from single_group[OF this] show ?thesis by auto
qed

lemma re_toggleSubCell_group:
  assumes "re_match re_toggleSubCell n = Some m"
  shows "\<exists>g. m_groups m = [g] \<and> ((\<exists>c. g = [c] \<and> is_digit19 c) \<or> g \<in> set (map fst digitMap))"
proof -
  have "linear re_toggleSubCell" by (simp add: re_toggleSubCell_def seqs_def)
  from re_match_groups[OF this assms]
  have "list_all2 (\<lambda>g L. g \<in> L) (m_groups m)
          [lang (alts [Cls is_digit19, Lit ''one'', Lit ''two'', Lit ''three'', Lit ''four'',
               Lit ''five'', Lit ''six'', Lit ''seven'', Lit ''eight'', Lit ''nine''])]"
    by (simp only: re_toggleSubCell_def seqs_def foldr.simps o_apply id_apply grp_langs.simps
          append_Nil append_Cons append_Nil2)
  from single_group[OF this] obtain g where g: "m_groups m = [g]"
      "g \<in> lang (alts [Cls is_digit19, Lit ''one'', Lit ''two'', Lit ''three'', Lit ''four'',
               Lit ''five'', Lit ''six'', Lit ''seven'', Lit ''eight'', Lit ''nine''])"
    by iprover
  from lang_toggle_group[OF g(2)] g(1) show ?thesis by simp
qed

lemma match_all_digit19:
  assumes "x \<in> set (match_all re_digit19 s)"
  shows "\<exists>c. x = [c] \<and> is_digit19 c"
proof -
  from assms have "x \<in> lang re_digit19"
    unfolding match_all_def by (rule match_all_from_lang)
  then show ?thesis by (simp add: re_digit19_def seqs_def)
qed

text \<open>
  Every group that the parser reads with \<open>m[1]\<close> or \<open>m[2]\<close> is present in every match
  of its expression, so no read is out of range.
\<close>

lemma re_match_group_count:
  "linear r \<Longrightarrow> re_match r s = Some m \<Longrightarrow> length (m_groups m) = length (grp_langs r)"
  by (drule (1) re_match_groups) (rule list_all2_lengthD)

lemma groups_are_present:
  "re_match re_subNum n = Some m \<Longrightarrow> length (m_groups m) = 1"
  "re_match re_cell n = Some m \<Longrightarrow> length (m_groups m) = 1"
  "re_match re_rowCol n = Some m \<Longrightarrow> length (m_groups m) = 2"
  "re_match re_selectCell n = Some m \<Longrightarrow> length (m_groups m) = 1"
  "re_match re_toggleSubCell n = Some m \<Longrightarrow> length (m_groups m) = 1"
  "re_match re_subCells n = Some m \<Longrightarrow> length (m_groups m) = 1"
  "re_match re_boxNum n = Some m \<Longrightarrow> length (m_groups m) = 1"
  by (drule re_match_group_count[rotated];
      simp add: re_subNum_def re_cell_def re_rowCol_def re_selectCell_def re_toggleSubCell_def
                re_subCells_def re_boxNum_def seqs_def)+

section \<open>Sorting, duplicates and the range of every index\<close>

lemma new_Set_foldl_map:
  assumes "inj f"
  shows "foldl (\<lambda>acc x. if x \<in> set acc then acc else acc @ [x]) (map f acc) (map f xs)
         = map f (foldl (\<lambda>acc x. if x \<in> set acc then acc else acc @ [x]) acc xs)"
proof (induction xs arbitrary: acc)
  case Nil
  then show ?case by simp
next
  case (Cons x xs)
  have mem: "f x \<in> set (map f acc) \<longleftrightarrow> x \<in> set acc"
    using assms by (auto dest: injD)
  show ?case
  proof (cases "x \<in> set acc")
    case True
    with mem Cons[of acc] show ?thesis by simp
  next
    case False
    with mem Cons[of "acc @ [x]"] show ?thesis by simp
  qed
qed

lemma new_Set_map: "inj f \<Longrightarrow> new_Set (map f xs) = map f (new_Set xs)"
  using new_Set_foldl_map[of f "[]" xs] by (simp add: new_Set_def)

lemma new_Set_foldl_props:
  "distinct acc \<Longrightarrow>
     distinct (foldl (\<lambda>acc x. if x \<in> set acc then acc else acc @ [x]) acc xs) \<and>
     set (foldl (\<lambda>acc x. if x \<in> set acc then acc else acc @ [x]) acc xs) = set acc \<union> set xs"
  by (induction xs arbitrary: acc) auto

lemma distinct_new_Set: "distinct (new_Set xs)"
  using new_Set_foldl_props[of "[]" xs] by (simp add: new_Set_def)

lemma set_new_Set: "set (new_Set xs) = set xs"
  using new_Set_foldl_props[of "[]" xs] by (simp add: new_Set_def)

lemma insert_asc_Num: "insert_asc (Num k) (map Num ks) = map Num (insort k ks)"
  by (induction ks) auto

lemma sort_asc_Num: "sort_asc (map Num ks) = map Num (sort ks)"
  by (induction ks) (simp_all add: sort_asc_def insert_asc_Num sort_key_def)

lemma sorted_wrt_Num: "sorted_wrt js_lt (map Num ks) = sorted_wrt (<) ks"
  by (simp add: sorted_wrt_map)

lemma digit19_index:
  assumes "\<forall>x\<in>set numbers. \<exists>c. x = [c] \<and> is_digit19 c"
  shows "\<exists>ks. map (\<lambda>x. js_sub (parseInt x) (Num 1)) numbers = map Num ks \<and> (\<forall>k\<in>set ks. 0 \<le> k \<and> k \<le> 8)"
  using assms
proof (induction numbers)
  case Nil
  then show ?case by simp
next
  case (Cons x xs)
  then obtain ks where ks: "map (\<lambda>x. js_sub (parseInt x) (Num 1)) xs = map Num ks" "\<forall>k\<in>set ks. 0 \<le> k \<and> k \<le> 8"
    by auto
  from Cons.prems obtain c where c: "x = [c]" "is_digit19 c" by auto
  from parseInt_digit19[OF c(2)] obtain k where k: "parseInt [c] = Num k" "1 \<le> k" "k \<le> 9" by blast
  have "map (\<lambda>x. js_sub (parseInt x) (Num 1)) (x # xs) = map Num ((k - 1) # ks)"
    using ks(1) c(1) k(1) by simp
  moreover have "\<forall>j\<in>set ((k - 1) # ks). 0 \<le> j \<and> j \<le> 8" using ks(2) k(2,3) by auto
  ultimately show ?case by blast
qed

lemma parseSubCellList_wf:
  "list_all (in_range 0 8) (parseSubCellList rest) \<and> sorted_wrt js_lt (parseSubCellList rest)"
proof -
  define numbers where "numbers = match_all re_digit19 (replace_all (Lit '','') '' '' (replace_all re_and '' '' rest))"
  have "\<forall>x\<in>set numbers. \<exists>c. x = [c] \<and> is_digit19 c"
    unfolding numbers_def using match_all_digit19 by blast
  from digit19_index[OF this] obtain ks
    where ks: "map (\<lambda>x. js_sub (parseInt x) (Num 1)) numbers = map Num ks" "\<forall>k\<in>set ks. 0 \<le> k \<and> k \<le> 8"
    by blast
  have inj: "inj Num" by (simp add: inj_def)
  have eq: "sort_asc (new_Set (map (\<lambda>x. js_sub (parseInt x) (Num 1)) numbers)) = map Num (sort (new_Set ks))"
    by (simp add: ks(1) new_Set_map[OF inj] sort_asc_Num)
  have "sorted_wrt (<) (sort (new_Set ks))"
    by (simp add: strict_sorted_iff distinct_new_Set)
  then have s: "sorted_wrt js_lt (map Num (sort (new_Set ks)))" by (simp add: sorted_wrt_Num)
  have r: "list_all (in_range 0 8) (map Num (sort (new_Set ks)))"
    using ks(2) by (simp add: list_all_iff set_new_Set in_range_def)
  show ?thesis
    using s r eq by (simp add: parseSubCellList_def Let_def numbers_def[symmetric])
qed

text \<open>
  The list of sub-cells depends on the set of digits found only: their order and their
  repetitions do not matter.
\<close>

lemma sort_new_Set: "sort (new_Set (ks :: int list)) = sorted_list_of_set (set ks)"
proof -
  have "sorted (sort (new_Set ks))" "distinct (sort (new_Set ks))" "set (sort (new_Set ks)) = set ks"
    by (simp_all add: distinct_new_Set set_new_Set)
  then show ?thesis
    by (metis sorted_list_of_set.idem_if_sorted_distinct)
qed

lemma parseSubCellList_order_free:
  assumes "set (match_all re_digit19 (replace_all (Lit '','') '' '' (replace_all re_and '' '' rest)))
         = set (match_all re_digit19 (replace_all (Lit '','') '' '' (replace_all re_and '' '' rest')))"
  shows "parseSubCellList rest = parseSubCellList rest'"
proof -
  have key: "\<exists>f. \<forall>r. parseSubCellList r
             = map Num (sorted_list_of_set (f ` set (match_all re_digit19
                 (replace_all (Lit '','') '' '' (replace_all re_and '' '' r)))))"
  proof (intro exI allI)
    fix r
    define numbers where "numbers = match_all re_digit19 (replace_all (Lit '','') '' '' (replace_all re_and '' '' r))"
    let ?f = "\<lambda>x. case js_sub (parseInt x) (Num 1) of Num k \<Rightarrow> k | NaN \<Rightarrow> 0"
    have d: "\<forall>x\<in>set numbers. \<exists>c. x = [c] \<and> is_digit19 c"
      unfolding numbers_def using match_all_digit19 by blast
    have m: "map (\<lambda>x. js_sub (parseInt x) (Num 1)) numbers = map Num (map ?f numbers)"
    proof -
      have "js_sub (parseInt x) (Num 1) = Num (?f x)" if "x \<in> set numbers" for x
      proof -
        from d that obtain c where c: "x = [c]" "is_digit19 c" by blast
        from parseInt_digit19[OF c(2)] c(1) show ?thesis by auto
      qed
      then show ?thesis by simp
    qed
    have inj: "inj Num" by (simp add: inj_def)
    have e: "sort_asc (new_Set (map (\<lambda>x. js_sub (parseInt x) (Num 1)) numbers))
               = map Num (sorted_list_of_set (?f ` set numbers))"
      unfolding m by (simp only: new_Set_map[OF inj] sort_asc_Num sort_new_Set set_map)
    show "parseSubCellList r = map Num (sorted_list_of_set (?f ` set numbers))"
      by (cases "numbers = []")
         (simp_all add: parseSubCellList_def Let_def numbers_def[symmetric] e)
  qed
  then obtain f where "\<And>r. parseSubCellList r
             = map Num (sorted_list_of_set (f ` set (match_all re_digit19
                 (replace_all (Lit '','') '' '' (replace_all re_and '' '' r)))))"
    by blast
  with assms show ?thesis by simp
qed

lemma find_posMap_range:
  "find (\<lambda>(key, idx). str_includes n key) posMap = Some (key, idx) \<Longrightarrow> in_range 0 8 idx"
proof -
  assume "find (\<lambda>(key, idx). str_includes n key) posMap = Some (key, idx)"
  then have "(key, idx) \<in> set posMap"
    by (auto simp: find_Some_iff in_set_conv_nth)
  then have "idx \<in> snd ` set posMap" by force
  then show ?thesis by (auto simp: posMap_def in_range_def)
qed

lemma parseSubCellPosition_range:
  assumes "parseSubCellPosition t = Some i"
  shows "in_range 0 8 i"
proof (cases "re_match re_subNum (normalize t)")
  case None
  with assms obtain key where "find (\<lambda>(key, idx). str_includes (normalize t) key) posMap = Some (key, i)"
    by (auto simp: parseSubCellPosition_def Let_def split: option.splits)
  then show ?thesis by (rule find_posMap_range)
next
  case (Some m)
  from re_subNum_group[OF Some] obtain c where c: "m_groups m = [c] # []" "is_digit19 c" by blast
  from parseInt_digit19[OF c(2)] obtain k where k: "parseInt [c] = Num k" "1 \<le> k" "k \<le> 9" by blast
  from assms Some c(1) k show ?thesis
    by (auto simp: parseSubCellPosition_def Let_def in_range_def)
qed

lemma js_le_bounds: "js_le (Num a) x \<Longrightarrow> js_le x (Num b) \<Longrightarrow> \<exists>k. x = Num k \<and> a \<le> k \<and> k \<le> b"
  by (cases x) auto

lemma parseCellNumber_range:
  assumes "parseCellNumber t = Some i"
  shows "in_range 0 23 i"
proof -
  let ?n = "normalize t"
  define fromCell where "fromCell =
            (case re_match re_cell ?n of
               Some cellMatch \<Rightarrow>
                 (let num = parseInt (m_groups cellMatch ! 0)
                  in if js_le (Num 1) num \<and> js_le num (Num MAIN_COUNT)
                     then Some (js_sub num (Num 1)) else None)
             | None \<Rightarrow> None)"
  have fc: "fromCell = Some j \<Longrightarrow> in_range 0 23 j" for j
    unfolding fromCell_def
    by (auto simp: Let_def in_range_def MAIN_COUNT_def MAIN_COLS_def MAIN_ROWS_def
             split: option.splits if_splits dest!: js_le_bounds)
  show ?thesis
  proof (cases fromCell)
    case (Some j)
    with assms have "i = j"
      by (simp add: parseCellNumber_def Let_def fromCell_def[symmetric])
    with fc[OF Some] show ?thesis by simp
  next
    case None
    with assms obtain m where m: "re_match re_rowCol ?n = Some m"
      and r: "js_le (Num 1) (parseInt (m_groups m ! 0))" "js_le (parseInt (m_groups m ! 0)) (Num 2)"
             "js_le (Num 1) (parseInt (m_groups m ! 1))" "js_le (parseInt (m_groups m ! 1)) (Num 12)"
      and i: "i = js_add (js_mul (js_sub (parseInt (m_groups m ! 0)) (Num 1)) (Num 12))
                         (js_sub (parseInt (m_groups m ! 1)) (Num 1))"
      by (auto simp: parseCellNumber_def Let_def fromCell_def[symmetric] split: option.splits if_splits)
    from js_le_bounds[OF r(1,2)] obtain row where row: "parseInt (m_groups m ! 0) = Num row" "1 \<le> row" "row \<le> 2" by blast
    from js_le_bounds[OF r(3,4)] obtain col where col: "parseInt (m_groups m ! 1) = Num col" "1 \<le> col" "col \<le> 12" by blast
    show ?thesis using i row col by (simp add: in_range_def)
  qed
qed

section \<open>Every command of the parser is well formed\<close>

lemma rule_selectCell_wf:
  "wf_command (if js_le (Num 1) requested \<and> js_le requested (Num MAIN_COUNT)
               then GoToCell (js_sub requested (Num 1)) else CellNotFound requested)"
  by (auto simp: in_range_def MAIN_COUNT_def MAIN_COLS_def MAIN_ROWS_def dest!: js_le_bounds)

lemma rule_toggleSubCell_wf:
  assumes "re_match re_toggleSubCell n = Some m"
  shows "in_range 0 8 (js_max (Num 0) (js_min (Num 8)
           (js_sub (case map_of digitMap (toLowerCase (m_groups m ! 0)) of
                      Some d \<Rightarrow> d | None \<Rightarrow> parseInt (toLowerCase (m_groups m ! 0))) (Num 1))))"
proof -
  from re_toggleSubCell_group[OF assms] obtain g
    where g: "m_groups m = [g]" "(\<exists>c. g = [c] \<and> is_digit19 c) \<or> g \<in> set (map fst digitMap)"
    by blast
  from g(2) have "in_range 1 9 (case map_of digitMap (toLowerCase g) of
                      Some d \<Rightarrow> d | None \<Rightarrow> parseInt (toLowerCase g))"
    using toggle_num_digit toggle_num_words by blast
  then obtain k where "(case map_of digitMap (toLowerCase g) of
                      Some d \<Rightarrow> d | None \<Rightarrow> parseInt (toLowerCase g)) = Num k" "1 \<le> k" "k \<le> 9"
    by (auto simp: in_range_def split: jsnum.splits)
  then show ?thesis using g(1) by (simp add: in_range_def split: option.splits)
qed

lemma rule_boxNum_wf:
  assumes "re_match re_boxNum n = Some m"
  shows "in_range 0 8 (js_sub (parseInt (m_groups m ! 0)) (Num 1))"
proof -
  from re_boxNum_group[OF assms] obtain c where c: "m_groups m = [c] # []" "is_digit19 c" by blast
  from parseInt_digit19[OF c(2)] obtain k where "parseInt [c] = Num k" "1 \<le> k" "k \<le> 9" by blast
  then show ?thesis using c(1) by (simp add: in_range_def)
qed

lemma wf_result_if:
  "(c \<Longrightarrow> wf_result a) \<Longrightarrow> (\<not> c \<Longrightarrow> wf_result b) \<Longrightarrow> wf_result (if c then a else b)"
  by simp

lemma wf_result_case:
  "(\<And>m. x = Some m \<Longrightarrow> wf_result (f m)) \<Longrightarrow> (x = None \<Longrightarrow> wf_result b) \<Longrightarrow>
     wf_result (case x of None \<Rightarrow> b | Some m \<Rightarrow> f m)"
  by (cases x) simp_all

lemma rule_subCells_wf:
  assumes "(case re_match re_subCells n of
              Some subCellsMatch \<Rightarrow>
                (if parseSubCellList (m_groups subCellsMatch ! 0) \<noteq> []
                 then Some (SelectSubCells (parseSubCellList (m_groups subCellsMatch ! 0))) else None)
            | None \<Rightarrow> None) = Some cmd"
  shows "wf_result (Some cmd)"
  using assms parseSubCellList_wf
  by (auto simp: wf_result_def Let_def split: option.splits if_splits)

lemma rule_selectSub_wf:
  assumes "(if str_includes n ''select''
            then (case parseSubCellPosition t of
                    Some subIdx \<Rightarrow> Some (SelectSub subIdx)
                  | None \<Rightarrow> None)
            else None) = Some cmd"
  shows "wf_result (Some cmd)"
  using assms parseSubCellPosition_range
  by (auto simp: wf_result_def split: option.splits if_splits)

text \<open>
  Claim C7. The parser is a total function: for every input, a string or not, it returns a
  command or \<open>None\<close>, and no equation of the model reads a group that the match does not
  have. Every command it returns is well formed: the index of \<open>GoToCell\<close> is a number in
  0..23; the index of \<open>SelectSub\<close>, the \<open>subIndex\<close> of \<open>ApplyToSub\<close> and every element of
  \<open>SelectSubCells\<close> is a number in 0..8, and never \<open>NaN\<close>; the indices of \<open>SelectSubCells\<close>
  are strictly ascending. Only \<open>CellNotFound\<close> is unconstrained: it carries the number as
  spoken.
\<close>

theorem parseVoiceCommand_wellformed: "wf_result (parseVoiceCommand v)"
proof (cases v)
  case JNonString
  then show ?thesis by (simp add: parseVoiceCommand_def wf_result_def)
next
  case (JString t)
  have "wf_result (parseVoiceCommand (JString t))"
    unfolding parseVoiceCommand_def jsval.case Let_def
    apply (intro wf_result_if wf_result_case)
    apply (simp_all add: rule_subCells_wf rule_selectSub_wf)
    apply (simp_all add: wf_result_def rule_toggleSubCell_wf rule_boxNum_wf parseCellNumber_range)
    apply (auto simp: in_range_def MAIN_COUNT_def MAIN_COLS_def MAIN_ROWS_def dest!: js_le_bounds)
    done
  with JString show ?thesis by simp
qed

theorem parseVoiceCommand_wellformed_witness:
  "wf_result (parseVoiceCommand (JString ''select sub cells 9, 2 and 2''))
   \<and> parseVoiceCommand (JString ''select sub cells 9, 2 and 2'') = Some (SelectSubCells [Num 1, Num 8])"
proof (rule conjI)
  show "wf_result (parseVoiceCommand (JString ''select sub cells 9, 2 and 2''))"
    by (rule parseVoiceCommand_wellformed)
  show "parseVoiceCommand (JString ''select sub cells 9, 2 and 2'') = Some (SelectSubCells [Num 1, Num 8])"
    by code_simp
qed

section \<open>A number of three or more digits after select cell\<close>

text \<open>
  After \<open>select cell\<close> the rule reads at most two digits and then needs a word boundary.
  Inside a longer run of digits there is none, and no other rule matches either: the
  utterance yields no command. The proof runs every search over the twelve characters of
  \<open>select cell\<close> and then over the digits, whatever they are.
\<close>

lemma show_nat_digits: "list_all is_digit (show_nat n)"
proof (induction n rule: show_nat.induct)
  case (1 n)
  have "list_all (\<lambda>k. is_digit (char_of (48 + k))) [0 ..< 10]" by code_simp
  then have d: "is_digit (char_of (48 + k))" if "k < 10" for k :: nat
    using that by (simp add: list_all_iff)
  show ?case
  proof (cases "n < 10")
    case True
    then show ?thesis by (subst show_nat.simps) (simp add: d)
  next
    case False
    with 1 show ?thesis by (subst show_nat.simps) (simp add: d)
  qed
qed

lemma show_nat_nonempty: "show_nat n \<noteq> []"
  by (subst show_nat.simps) simp

lemma show_nat_length3: "100 \<le> n \<Longrightarrow> 3 \<le> length (show_nat n)"
proof -
  assume n: "100 \<le> n"
  have a: "show_nat n = show_nat (n div 10) @ [char_of (48 + n mod 10)]"
    using n by (subst show_nat.simps) simp
  have "\<not> n div 10 < 10" using n by linarith
  then have b: "show_nat (n div 10) = show_nat (n div 10 div 10) @ [char_of (48 + n div 10 mod 10)]"
    by (subst show_nat.simps) simp
  have "1 \<le> length (show_nat (n div 10 div 10))"
    using show_nat_nonempty[of "n div 10 div 10"] by (cases "show_nat (n div 10 div 10)") auto
  then show ?thesis unfolding a b by simp
qed

lemma tail_no_match:
  assumes Q: "\<And>d b a. is_digit d \<Longrightarrow> list_all is_digit a \<Longrightarrow> ms r ((d # b, a), []) = []"
  shows "is_digit d \<Longrightarrow> list_all is_digit a \<Longrightarrow> re_find r (d # b) a = None"
proof (induction a arbitrary: d b)
  case Nil
  then show ?case by (simp add: Q)
next
  case (Cons c cs)
  then show ?case by (simp add: Q)
qed

lemma char_facts:
  "is_word CHR ''a''" "\<not> is_space CHR ''a''" "\<not> is_digit CHR ''a''" "\<not> is_digit19 CHR ''a''"
  "is_word CHR ''b''" "\<not> is_space CHR ''b''" "\<not> is_digit CHR ''b''" "\<not> is_digit19 CHR ''b''"
  "is_word CHR ''c''" "\<not> is_space CHR ''c''" "\<not> is_digit CHR ''c''" "\<not> is_digit19 CHR ''c''"
  "is_word CHR ''d''" "\<not> is_space CHR ''d''" "\<not> is_digit CHR ''d''" "\<not> is_digit19 CHR ''d''"
  "is_word CHR ''e''" "\<not> is_space CHR ''e''" "\<not> is_digit CHR ''e''" "\<not> is_digit19 CHR ''e''"
  "is_word CHR ''f''" "\<not> is_space CHR ''f''" "\<not> is_digit CHR ''f''" "\<not> is_digit19 CHR ''f''"
  "is_word CHR ''g''" "\<not> is_space CHR ''g''" "\<not> is_digit CHR ''g''" "\<not> is_digit19 CHR ''g''"
  "is_word CHR ''h''" "\<not> is_space CHR ''h''" "\<not> is_digit CHR ''h''" "\<not> is_digit19 CHR ''h''"
  "is_word CHR ''i''" "\<not> is_space CHR ''i''" "\<not> is_digit CHR ''i''" "\<not> is_digit19 CHR ''i''"
  "is_word CHR ''j''" "\<not> is_space CHR ''j''" "\<not> is_digit CHR ''j''" "\<not> is_digit19 CHR ''j''"
  "is_word CHR ''k''" "\<not> is_space CHR ''k''" "\<not> is_digit CHR ''k''" "\<not> is_digit19 CHR ''k''"
  "is_word CHR ''l''" "\<not> is_space CHR ''l''" "\<not> is_digit CHR ''l''" "\<not> is_digit19 CHR ''l''"
  "is_word CHR ''m''" "\<not> is_space CHR ''m''" "\<not> is_digit CHR ''m''" "\<not> is_digit19 CHR ''m''"
  "is_word CHR ''n''" "\<not> is_space CHR ''n''" "\<not> is_digit CHR ''n''" "\<not> is_digit19 CHR ''n''"
  "is_word CHR ''o''" "\<not> is_space CHR ''o''" "\<not> is_digit CHR ''o''" "\<not> is_digit19 CHR ''o''"
  "is_word CHR ''p''" "\<not> is_space CHR ''p''" "\<not> is_digit CHR ''p''" "\<not> is_digit19 CHR ''p''"
  "is_word CHR ''q''" "\<not> is_space CHR ''q''" "\<not> is_digit CHR ''q''" "\<not> is_digit19 CHR ''q''"
  "is_word CHR ''r''" "\<not> is_space CHR ''r''" "\<not> is_digit CHR ''r''" "\<not> is_digit19 CHR ''r''"
  "is_word CHR ''s''" "\<not> is_space CHR ''s''" "\<not> is_digit CHR ''s''" "\<not> is_digit19 CHR ''s''"
  "is_word CHR ''t''" "\<not> is_space CHR ''t''" "\<not> is_digit CHR ''t''" "\<not> is_digit19 CHR ''t''"
  "is_word CHR ''u''" "\<not> is_space CHR ''u''" "\<not> is_digit CHR ''u''" "\<not> is_digit19 CHR ''u''"
  "is_word CHR ''v''" "\<not> is_space CHR ''v''" "\<not> is_digit CHR ''v''" "\<not> is_digit19 CHR ''v''"
  "is_word CHR ''w''" "\<not> is_space CHR ''w''" "\<not> is_digit CHR ''w''" "\<not> is_digit19 CHR ''w''"
  "is_word CHR ''x''" "\<not> is_space CHR ''x''" "\<not> is_digit CHR ''x''" "\<not> is_digit19 CHR ''x''"
  "is_word CHR ''y''" "\<not> is_space CHR ''y''" "\<not> is_digit CHR ''y''" "\<not> is_digit19 CHR ''y''"
  "is_word CHR ''z''" "\<not> is_space CHR ''z''" "\<not> is_digit CHR ''z''" "\<not> is_digit19 CHR ''z''"
  "\<not> is_word CHR '' ''" "is_space CHR '' ''" "\<not> is_digit CHR '' ''" "\<not> is_digit19 CHR '' ''"
  by (simp_all add: is_word_def is_space_def is_digit_def is_digit19_def)

lemma digit_facts:
  "is_digit d \<Longrightarrow> is_word d" "is_digit d \<Longrightarrow> \<not> is_space d"
  by (auto simp: is_digit_def is_word_def is_space_def)

lemma starts_with_digit:
  "is_digit d \<Longrightarrow> \<not> is_digit k \<Longrightarrow> starts_with (k # ks) (d # a) = False"
  by auto

lemmas re_defs = re_next_def re_prev_def re_selectCell_def re_toggleSubCell_def re_cell_def re_rowCol_def re_subCells_def re_subNum_def re_boxNum_def re_toggleAll_def re_turnOn_def re_turnOff_def

lemma after_digit_no_match:
  assumes "is_digit d" and "list_all is_digit a"
  shows "ms re_next ((d # b, a), []) = []" "ms re_prev ((d # b, a), []) = []"
    "ms re_selectCell ((d # b, a), []) = []" "ms re_toggleSubCell ((d # b, a), []) = []"
    "ms re_cell ((d # b, a), []) = []" "ms re_rowCol ((d # b, a), []) = []"
    "ms re_subCells ((d # b, a), []) = []" "ms re_subNum ((d # b, a), []) = []"
    "ms re_boxNum ((d # b, a), []) = []" "ms re_toggleAll ((d # b, a), []) = []"
    "ms re_turnOn ((d # b, a), []) = []" "ms re_turnOff ((d # b, a), []) = []"
  using assms
  by (cases a; simp add: re_defs seqs_def word_boundary_def digit_facts)+

lemma at_first_digit_no_match:
  assumes "is_digit d1" and "is_digit d2"
  shows
    "ms re_next ((CHR '' '' # b, d1 # d2 # a), []) = []" "ms re_prev ((CHR '' '' # b, d1 # d2 # a), []) = []"
    "ms re_selectCell ((CHR '' '' # b, d1 # d2 # a), []) = []" "ms re_toggleSubCell ((CHR '' '' # b, d1 # d2 # a), []) = []"
    "ms re_cell ((CHR '' '' # b, d1 # d2 # a), []) = []" "ms re_rowCol ((CHR '' '' # b, d1 # d2 # a), []) = []"
    "ms re_subCells ((CHR '' '' # b, d1 # d2 # a), []) = []" "ms re_subNum ((CHR '' '' # b, d1 # d2 # a), []) = []"
    "ms re_boxNum ((CHR '' '' # b, d1 # d2 # a), []) = []" "ms re_toggleAll ((CHR '' '' # b, d1 # d2 # a), []) = []"
    "ms re_turnOn ((CHR '' '' # b, d1 # d2 # a), []) = []" "ms re_turnOff ((CHR '' '' # b, d1 # d2 # a), []) = []"
  using assms
  by (simp_all add: re_defs seqs_def word_boundary_def digit_facts char_facts starts_with_digit advance_simp
        del: starts_with.simps(3))

lemma digits_no_match:
  assumes "is_digit d1" and "is_digit d2" and "list_all is_digit a"
  shows
    "re_find re_next (CHR '' '' # b) (d1 # d2 # a) = None" "re_find re_prev (CHR '' '' # b) (d1 # d2 # a) = None"
    "re_find re_selectCell (CHR '' '' # b) (d1 # d2 # a) = None" "re_find re_toggleSubCell (CHR '' '' # b) (d1 # d2 # a) = None"
    "re_find re_cell (CHR '' '' # b) (d1 # d2 # a) = None" "re_find re_rowCol (CHR '' '' # b) (d1 # d2 # a) = None"
    "re_find re_subCells (CHR '' '' # b) (d1 # d2 # a) = None" "re_find re_subNum (CHR '' '' # b) (d1 # d2 # a) = None"
    "re_find re_boxNum (CHR '' '' # b) (d1 # d2 # a) = None" "re_find re_toggleAll (CHR '' '' # b) (d1 # d2 # a) = None"
    "re_find re_turnOn (CHR '' '' # b) (d1 # d2 # a) = None" "re_find re_turnOff (CHR '' '' # b) (d1 # d2 # a) = None"
  using assms
  by (simp_all add: at_first_digit_no_match tail_no_match after_digit_no_match)

lemmas ms_defs = re_defs[THEN arg_cong[of _ _ ms]]

lemma re_find_step:
  "\<not> is_digit c \<Longrightarrow> re_find r b (c # cs)
     = (case ms r ((b, c # cs), []) of [] \<Rightarrow> re_find r (c # b) cs | st # x \<Rightarrow> Some (b, st))"
  by simp

lemma starts_with_step:
  "\<not> is_digit c \<Longrightarrow> starts_with (k # ks) (c # cs) = (k = c \<and> starts_with ks cs)"
  by simp

lemma select_cell_long_number_no_match:
  assumes "is_digit d1" and "is_digit d2" and "is_digit d3" and "list_all is_digit a"
  shows
    "re_find re_next [] (''select cell '' @ d1 # d2 # d3 # a) = None" "re_find re_prev [] (''select cell '' @ d1 # d2 # d3 # a) = None"
    "re_find re_selectCell [] (''select cell '' @ d1 # d2 # d3 # a) = None" "re_find re_toggleSubCell [] (''select cell '' @ d1 # d2 # d3 # a) = None"
    "re_find re_cell [] (''select cell '' @ d1 # d2 # d3 # a) = None" "re_find re_rowCol [] (''select cell '' @ d1 # d2 # d3 # a) = None"
    "re_find re_subCells [] (''select cell '' @ d1 # d2 # d3 # a) = None" "re_find re_subNum [] (''select cell '' @ d1 # d2 # d3 # a) = None"
    "re_find re_boxNum [] (''select cell '' @ d1 # d2 # d3 # a) = None" "re_find re_toggleAll [] (''select cell '' @ d1 # d2 # d3 # a) = None"
    "re_find re_turnOn [] (''select cell '' @ d1 # d2 # d3 # a) = None" "re_find re_turnOff [] (''select cell '' @ d1 # d2 # d3 # a) = None"
  using assms
  by (simp_all add: ms_defs seqs_def word_boundary_def digit_facts char_facts advance_simp
        digits_no_match re_find_step starts_with_step starts_with_digit
        del: re_find.simps(2) starts_with.simps(3))

lemma str_includes_digits:
  "list_all is_digit a \<Longrightarrow> \<not> is_digit k \<Longrightarrow> \<not> str_includes a (k # ks)"
  by (induction a) (auto simp: starts_with_digit)

lemma str_includes_step:
  "\<not> is_digit c \<Longrightarrow> str_includes (c # cs) key = (starts_with key (c # cs) \<or> str_includes cs key)"
  by simp

lemma select_cell_long_number_no_position:
  assumes "list_all is_digit a"
  shows "find (\<lambda>(key, idx). str_includes (''select cell '' @ a) key) posMap = None"
  using assms
  by (simp add: posMap_def char_facts str_includes_step starts_with_step str_includes_digits
        del: str_includes.simps(2) starts_with.simps(3))

lemma toLowerCase_digit: "is_digit d \<Longrightarrow> toLowerCase_char d = d"
  unfolding is_digit_def by (auto simp: toLowerCase_char_def)

lemma toLowerCase_digits: "list_all is_digit a \<Longrightarrow> toLowerCase a = a"
  by (induction a) (simp_all add: toLowerCase_def toLowerCase_digit)

lemma replace_spaces_step:
  "\<not> is_space c \<Longrightarrow>
     replace_from (Plus is_space) rep b (c # cs) = c # replace_from (Plus is_space) rep (c # b) cs"
  by (subst replace_from.simps) simp

lemma replace_single_space:
  "is_space c \<Longrightarrow> \<not> is_space c2 \<Longrightarrow>
     replace_from (Plus is_space) rep b (c # c2 # cs)
       = rep @ replace_from (Plus is_space) rep (c # b) (c2 # cs)"
  by (subst replace_from.simps) (simp add: advance_simp)

lemma replace_spaces_digits:
  "list_all is_digit a \<Longrightarrow> replace_from (Plus is_space) rep b a = a"
proof (induction a arbitrary: b)
  case Nil
  then show ?case by (subst replace_from.simps) simp
next
  case (Cons c cs)
  then show ?case by (simp add: replace_spaces_step digit_facts)
qed

lemma trim_keeps:
  assumes "\<not> is_space c" and "list_all is_digit a" and "a \<noteq> []"
  shows "trim (c # w @ a) = c # w @ a"
proof -
  from assms(3) obtain l r where a: "a = r @ [l]" by (metis rev_exhaust)
  with assms(2) have "\<not> is_space l" by (simp add: digit_facts)
  then have "dropWhile is_space (rev (c # w @ a)) = rev (c # w @ a)" by (simp add: a)
  then show ?thesis using assms(1) by (simp add: trim_def)
qed

lemma normalize_select_cell_number:
  assumes "list_all is_digit a" and "a \<noteq> []"
  shows "normalize (''select cell '' @ a) = ''select cell '' @ a"
proof -
  have l: "toLowerCase (''select cell '' @ a) = ''select cell '' @ a"
    using toLowerCase_digits[OF assms(1)] by (simp add: toLowerCase_def toLowerCase_char_def)
  have t: "trim (''select cell '' @ a) = ''select cell '' @ a"
    using trim_keeps[of "CHR ''s''" a "''elect cell ''"] assms by (simp add: char_facts)
  from assms obtain d ds where a: "a = d # ds" "is_digit d" by (cases a) auto
  have r: "replace_all (Plus is_space) '' '' (''select cell '' @ a) = ''select cell '' @ a"
    using replace_spaces_digits[OF assms(1)] a
    by (simp add: replace_all_def replace_spaces_step replace_single_space char_facts digit_facts)
  show ?thesis by (simp only: normalize_def l t r)
qed

lemma select_cell_long_number:
  assumes "list_all is_digit ds" and "3 \<le> length ds"
  shows "parseVoiceCommand (JString (''select cell '' @ ds)) = None"
proof -
  from assms obtain d1 d2 d3 a where ds: "ds = d1 # d2 # d3 # a"
    and d: "is_digit d1" "is_digit d2" "is_digit d3" "list_all is_digit a"
    by (cases ds; cases "tl ds"; cases "tl (tl ds)") auto
  have n: "normalize (''select cell '' @ ds) = ''select cell '' @ ds"
    using assms(1) ds by (intro normalize_select_cell_number) simp_all
  note nm = select_cell_long_number_no_match[OF d, folded ds]
  note np = select_cell_long_number_no_position[OF assms(1)]
  have ne: "''select cell '' @ ds \<noteq> []" "''select cell '' @ ds \<noteq> ''next''"
    "''select cell '' @ ds \<noteq> ''previous''" "''select cell '' @ ds \<noteq> ''prev''"
    by simp_all
  have pos: "parseSubCellPosition (''select cell '' @ ds) = None"
    by (simp add: parseSubCellPosition_def n re_match_def nm np del: append.simps)
  have cell: "parseCellNumber (''select cell '' @ ds) = None"
    by (simp add: parseCellNumber_def n re_match_def nm del: append.simps)
  have inc: "str_includes (''select cell '' @ ds) ''select''"
    by simp
  show ?thesis
    by (simp add: parseVoiceCommand_def Let_def n cell pos ne inc re_test_def re_match_def nm
          del: append.simps)
qed

lemma select_cell_three_digits:
  assumes "100 \<le> n"
  shows "parseVoiceCommand (JString (''select cell '' @ show_nat n)) = None"
  using select_cell_long_number[OF show_nat_digits show_nat_length3[OF assms]] .

section \<open>The utterances of the testable properties\<close>

text \<open>
  An utterance with a number in it is written with \<open>show_nat\<close>, the decimal numeral. The
  properties over a range of numbers are checked number by number, in batches.
\<close>

lemma list_all_uptD: "list_all P [a ..< b] \<Longrightarrow> a \<le> n \<Longrightarrow> n < b \<Longrightarrow> P n"
  by (simp add: list_all_iff)

subsection \<open>select cell n\<close>

lemma select_cell_valid_1_6:
  "list_all (\<lambda>n. parseVoiceCommand (JString (''select cell '' @ show_nat n)) = Some (GoToCell (Num (int n - 1)))) [1 ..< 7]"
  by code_simp

lemma select_cell_valid_7_12:
  "list_all (\<lambda>n. parseVoiceCommand (JString (''select cell '' @ show_nat n)) = Some (GoToCell (Num (int n - 1)))) [7 ..< 13]"
  by code_simp

lemma select_cell_valid_13_18:
  "list_all (\<lambda>n. parseVoiceCommand (JString (''select cell '' @ show_nat n)) = Some (GoToCell (Num (int n - 1)))) [13 ..< 19]"
  by code_simp

lemma select_cell_valid_19_24:
  "list_all (\<lambda>n. parseVoiceCommand (JString (''select cell '' @ show_nat n)) = Some (GoToCell (Num (int n - 1)))) [19 ..< 25]"
  by code_simp

text \<open>
  Claim C1. For every integer \<open>n\<close> with \<open>1 \<le> n \<le> 24\<close>, the utterance \<open>select cell n\<close> yields
  \<open>GoToCell (n - 1)\<close>. So it is never read as a \<open>SelectSub\<close>: the rule for
  \<open>select cell\<close> is tried before the rule for \<open>select\<close> with a position.
\<close>

theorem select_cell_goes_to_cell:
  assumes "1 \<le> n" and "n \<le> 24"
  shows "parseVoiceCommand (JString (''select cell '' @ show_nat n)) = Some (GoToCell (Num (int n - 1)))
         \<and> parseVoiceCommand (JString (''select cell '' @ show_nat n)) \<noteq> Some (SelectSub i)"
proof -
  have "parseVoiceCommand (JString (''select cell '' @ show_nat n)) = Some (GoToCell (Num (int n - 1)))"
  proof -
    consider "1 \<le> n \<and> n < 7" | "7 \<le> n \<and> n < 13" | "13 \<le> n \<and> n < 19" | "19 \<le> n \<and> n < 25"
      using assms by linarith
    then show ?thesis
    proof cases
      case 1
      then show ?thesis by (intro list_all_uptD[OF select_cell_valid_1_6]) simp_all
    next
      case 2
      then show ?thesis by (intro list_all_uptD[OF select_cell_valid_7_12]) simp_all
    next
      case 3
      then show ?thesis by (intro list_all_uptD[OF select_cell_valid_13_18]) simp_all
    next
      case 4
      then show ?thesis by (intro list_all_uptD[OF select_cell_valid_19_24]) simp_all
    qed
qed
  then show ?thesis by simp
qed

theorem select_cell_goes_to_cell_witness:
  "(1::nat) \<le> 5 \<and> (5::nat) \<le> 24
   \<and> parseVoiceCommand (JString ''select cell 5'') = Some (GoToCell (Num 4))
   \<and> parseVoiceCommand (JString ''select cell 5'') \<noteq> Some (SelectSub (Num 4))"
proof -
  have s: "show_nat 5 = ''5''" by code_simp
  from select_cell_goes_to_cell[of 5 "Num 4"] show ?thesis
    unfolding s by simp
qed

lemma select_cell_not_found_25_34:
  "list_all (\<lambda>n. parseVoiceCommand (JString (''select cell '' @ show_nat n)) = Some (CellNotFound (Num (int n)))) [25 ..< 35]"
  by code_simp

lemma select_cell_not_found_35_44:
  "list_all (\<lambda>n. parseVoiceCommand (JString (''select cell '' @ show_nat n)) = Some (CellNotFound (Num (int n)))) [35 ..< 45]"
  by code_simp

lemma select_cell_not_found_45_54:
  "list_all (\<lambda>n. parseVoiceCommand (JString (''select cell '' @ show_nat n)) = Some (CellNotFound (Num (int n)))) [45 ..< 55]"
  by code_simp

lemma select_cell_not_found_55_63:
  "list_all (\<lambda>n. parseVoiceCommand (JString (''select cell '' @ show_nat n)) = Some (CellNotFound (Num (int n)))) [55 ..< 64]"
  by code_simp

lemma select_cell_not_found_64_72:
  "list_all (\<lambda>n. parseVoiceCommand (JString (''select cell '' @ show_nat n)) = Some (CellNotFound (Num (int n)))) [64 ..< 73]"
  by code_simp

lemma select_cell_not_found_73_81:
  "list_all (\<lambda>n. parseVoiceCommand (JString (''select cell '' @ show_nat n)) = Some (CellNotFound (Num (int n)))) [73 ..< 82]"
  by code_simp

lemma select_cell_not_found_82_90:
  "list_all (\<lambda>n. parseVoiceCommand (JString (''select cell '' @ show_nat n)) = Some (CellNotFound (Num (int n)))) [82 ..< 91]"
  by code_simp

lemma select_cell_not_found_91_99:
  "list_all (\<lambda>n. parseVoiceCommand (JString (''select cell '' @ show_nat n)) = Some (CellNotFound (Num (int n)))) [91 ..< 100]"
  by code_simp

lemma select_cell_not_found_0:
  "parseVoiceCommand (JString (''select cell '' @ show_nat 0)) = Some (CellNotFound (Num 0))"
  by code_simp

text \<open>
  What the rule does, by the number of digits. The pattern reads one or two digits,
  \<open>\d{1,2}\<close>, and then needs a word boundary. With \<open>n = 0\<close> or \<open>25 \<le> n \<le> 99\<close> the
  branch for a number out of range is reached and returns \<open>CellNotFound n\<close>. With
  \<open>n \<ge> 100\<close> the pattern does not match, the branch is not reached, and no other rule
  matches.
\<close>

lemma select_cell_by_digits:
  "(n = 0 \<or> (25 \<le> n \<and> n \<le> 99) \<longrightarrow>
      parseVoiceCommand (JString (''select cell '' @ show_nat n)) = Some (CellNotFound (Num (int n))))
   \<and> (100 \<le> n \<longrightarrow> parseVoiceCommand (JString (''select cell '' @ show_nat n)) = None)"
proof (intro conjI impI)
  assume assms: "n = 0 \<or> (25 \<le> n \<and> n \<le> 99)"
  show "parseVoiceCommand (JString (''select cell '' @ show_nat n)) = Some (CellNotFound (Num (int n)))"
  proof (cases "n = 0")
    case True
    then show ?thesis using select_cell_not_found_0 by simp
  next
    case False
    consider "25 \<le> n \<and> n < 35" | "35 \<le> n \<and> n < 45" | "45 \<le> n \<and> n < 55" | "55 \<le> n \<and> n < 64" | "64 \<le> n \<and> n < 73" | "73 \<le> n \<and> n < 82" | "82 \<le> n \<and> n < 91" | "91 \<le> n \<and> n < 100"
      using assms False by linarith
    then show ?thesis
    proof cases
      case 1
      then show ?thesis by (intro list_all_uptD[OF select_cell_not_found_25_34]) simp_all
    next
      case 2
      then show ?thesis by (intro list_all_uptD[OF select_cell_not_found_35_44]) simp_all
    next
      case 3
      then show ?thesis by (intro list_all_uptD[OF select_cell_not_found_45_54]) simp_all
    next
      case 4
      then show ?thesis by (intro list_all_uptD[OF select_cell_not_found_55_63]) simp_all
    next
      case 5
      then show ?thesis by (intro list_all_uptD[OF select_cell_not_found_64_72]) simp_all
    next
      case 6
      then show ?thesis by (intro list_all_uptD[OF select_cell_not_found_73_81]) simp_all
    next
      case 7
      then show ?thesis by (intro list_all_uptD[OF select_cell_not_found_82_90]) simp_all
    next
      case 8
      then show ?thesis by (intro list_all_uptD[OF select_cell_not_found_91_99]) simp_all
    qed
  qed
next
  assume "100 \<le> n"
  then show "parseVoiceCommand (JString (''select cell '' @ show_nat n)) = None"
    by (rule select_cell_three_digits)
qed

text \<open>
  Claim C2. For every number \<open>n\<close> outside 1..24 the utterance \<open>select cell n\<close> should
  yield \<open>CellNotFound n\<close>, with the number as spoken; the comment above the rule says
  "if out of range, report not found". For 0 and for 25..99 the parser does so
  (\<open>select_cell_by_digits\<close>). For \<open>select cell 100\<close> it does not: the number is out of
  range, but the parser returns no command, where \<open>select cell 99\<close> returns
  \<open>CellNotFound 99\<close>.
\<close>

theorem select_cell_100_is_not_reported:
  "parseVoiceCommand (JString ''select cell 100'') = None
   \<and> parseVoiceCommand (JString ''select cell 99'') = Some (CellNotFound (Num 99))
   \<and> parseVoiceCommand (JString ''select cell 100'') \<noteq> Some (CellNotFound (Num 100))"
proof -
  have a: "parseVoiceCommand (JString ''select cell 100'') = None" by code_simp
  have b: "parseVoiceCommand (JString ''select cell 99'') = Some (CellNotFound (Num 99))" by code_simp
  show ?thesis unfolding a b by simp
qed

subsection \<open>A number with and without the keyword\<close>

lemma bare_number_1_6:
  "list_all (\<lambda>n. parseVoiceCommand (JString (show_nat n)) = None) [1 ..< 7]"
  by code_simp

lemma bare_number_7_12:
  "list_all (\<lambda>n. parseVoiceCommand (JString (show_nat n)) = None) [7 ..< 13]"
  by code_simp

lemma bare_number_13_18:
  "list_all (\<lambda>n. parseVoiceCommand (JString (show_nat n)) = None) [13 ..< 19]"
  by code_simp

lemma bare_number_19_24:
  "list_all (\<lambda>n. parseVoiceCommand (JString (show_nat n)) = None) [19 ..< 25]"
  by code_simp

lemma cell_number_1_6:
  "list_all (\<lambda>n. parseVoiceCommand (JString (''cell '' @ show_nat n)) = Some (GoToCell (Num (int n - 1)))) [1 ..< 7]"
  by code_simp

lemma cell_number_7_12:
  "list_all (\<lambda>n. parseVoiceCommand (JString (''cell '' @ show_nat n)) = Some (GoToCell (Num (int n - 1)))) [7 ..< 13]"
  by code_simp

lemma cell_number_13_18:
  "list_all (\<lambda>n. parseVoiceCommand (JString (''cell '' @ show_nat n)) = Some (GoToCell (Num (int n - 1)))) [13 ..< 19]"
  by code_simp

lemma cell_number_19_24:
  "list_all (\<lambda>n. parseVoiceCommand (JString (''cell '' @ show_nat n)) = Some (GoToCell (Num (int n - 1)))) [19 ..< 25]"
  by code_simp

text \<open>
  Claim C3, amended. The pattern of \<open>parseCellNumber\<close> is
  \<open>/\b(?:go\s+to\s+)?(?:cell|block)\s+(\d{1,2})\b/\<close>: \<open>go to\<close> is optional, the keyword
  \<open>cell\<close> or \<open>block\<close> is not. For every \<open>n\<close> with \<open>1 \<le> n \<le> 24\<close>, the utterance \<open>cell n\<close>
  yields \<open>GoToCell (n - 1)\<close>, and the utterance that is just the number \<open>n\<close> yields no
  command.
\<close>

theorem cell_number_needs_keyword:
  assumes "1 \<le> n" and "n \<le> 24"
  shows "parseVoiceCommand (JString (''cell '' @ show_nat n)) = Some (GoToCell (Num (int n - 1)))
         \<and> parseVoiceCommand (JString (show_nat n)) = None"
proof (rule conjI)
  show "parseVoiceCommand (JString (''cell '' @ show_nat n)) = Some (GoToCell (Num (int n - 1)))"
  proof -
    consider "1 \<le> n \<and> n < 7" | "7 \<le> n \<and> n < 13" | "13 \<le> n \<and> n < 19" | "19 \<le> n \<and> n < 25"
      using assms by linarith
    then show ?thesis
    proof cases
      case 1
      then show ?thesis by (intro list_all_uptD[OF cell_number_1_6]) simp_all
    next
      case 2
      then show ?thesis by (intro list_all_uptD[OF cell_number_7_12]) simp_all
    next
      case 3
      then show ?thesis by (intro list_all_uptD[OF cell_number_13_18]) simp_all
    next
      case 4
      then show ?thesis by (intro list_all_uptD[OF cell_number_19_24]) simp_all
    qed
qed
  show "parseVoiceCommand (JString (show_nat n)) = None"
  proof -
    consider "1 \<le> n \<and> n < 7" | "7 \<le> n \<and> n < 13" | "13 \<le> n \<and> n < 19" | "19 \<le> n \<and> n < 25"
      using assms by linarith
    then show ?thesis
    proof cases
      case 1
      then show ?thesis by (intro list_all_uptD[OF bare_number_1_6]) simp_all
    next
      case 2
      then show ?thesis by (intro list_all_uptD[OF bare_number_7_12]) simp_all
    next
      case 3
      then show ?thesis by (intro list_all_uptD[OF bare_number_13_18]) simp_all
    next
      case 4
      then show ?thesis by (intro list_all_uptD[OF bare_number_19_24]) simp_all
    qed
qed
qed

theorem cell_number_needs_keyword_witness:
  "(1::nat) \<le> 5 \<and> (5::nat) \<le> 24
   \<and> parseVoiceCommand (JString ''cell 5'') = Some (GoToCell (Num 4))
   \<and> parseVoiceCommand (JString ''5'') = None"
proof -
  have s: "show_nat 5 = ''5''" by code_simp
  from cell_number_needs_keyword[of 5] show ?thesis
    unfolding s by simp
qed

theorem bare_number_counterexample:
  "\<not> (parseVoiceCommand (JString ''5'') = Some (GoToCell (Num 4)))"
proof -
  have "parseVoiceCommand (JString ''5'') = None" by code_simp
  then show ?thesis by simp
qed

subsection \<open>select sub cells\<close>

lemma select_sub_cells_plural:
  "parseVoiceCommand (JString ''select sub cells 4, 5 and 6'') = Some (SelectSubCells [Num 3, Num 4, Num 5])"
  by code_simp

lemma select_sub_cell_documented_example:
  "parseVoiceCommand (JString ''select sub cell 4, 5 and 6'') = Some (GoToCell (Num 3))"
  by code_simp

text \<open>
  Claim C4. The utterance \<open>select sub cell 6 5 4\<close> should yield
  \<open>SelectSubCells [3, 4, 5]\<close>, as the comment above the rule says of
  \<open>select sub cell 4, 5 and 6\<close>. It does not: \<open>parseCellNumber\<close> is called before the rule
  for the list of sub-cells, and its pattern finds \<open>cell 6\<close> inside \<open>sub cell 6\<close>, so the
  parser returns \<open>GoToCell 5\<close>. With the plural \<open>sub cells\<close> the pattern finds nothing and
  the list is read; every list the parser returns is strictly ascending (see C7).
\<close>

theorem select_sub_cell_singular_goes_to_cell:
  "parseVoiceCommand (JString ''select sub cell 6 5 4'') = Some (GoToCell (Num 5))"
  by code_simp

subsection \<open>toggle cell n\<close>







subsection \<open>select with a position\<close>

lemma select_position_examples:
  "parseVoiceCommand (JString ''select center'') = Some (SelectSub (Num 4))"
  "parseVoiceCommand (JString ''select top right'') = Some (SelectSub (Num 2))"
  "parseVoiceCommand (JString ''select top left'') = Some (SelectSub (Num 0))"
  "parseVoiceCommand (JString ''select middle right'') = Some (SelectSub (Num 5))"
  by code_simp+


text \<open>
  Claim C6. The table of positions is read in its order, and a phrase of two words should
  win over a single word inside it. For \<open>select center\<close>, \<open>select top right\<close>,
  \<open>select top left\<close> and \<open>select middle right\<close> it does. For \<open>bottom center\<close> it does
  not: the table maps \<open>bottom center\<close> to 7, but the entry \<open>center\<close> stands before it, so
  \<open>select bottom center\<close> yields \<open>SelectSub 4\<close>.
\<close>

theorem select_bottom_center_is_center:
  "parseVoiceCommand (JString ''select bottom center'') = Some (SelectSub (Num 4))
   \<and> map_of posMap ''bottom center'' = Some (Num 7)
   \<and> map_of posMap ''center'' = Some (Num 4)"
  by code_simp

subsection \<open>Empty input\<close>


lemma toLowerCase_char_space: "is_space c \<Longrightarrow> toLowerCase_char c = c"
  unfolding is_space_def by (auto simp: toLowerCase_char_def)

lemma normalize_spaces:
  assumes "list_all is_space ws"
  shows "normalize ws = []"
proof -
  have l: "toLowerCase ws = ws"
    using assms by (induction ws) (simp_all add: toLowerCase_def toLowerCase_char_space)
  have d: "dropWhile is_space ws = []"
    using assms by (simp add: list_all_iff)
  have t: "trim ws = []"
    unfolding trim_def d by simp
  have r: "replace_all (Plus is_space) '' '' [] = []" by code_simp
  show ?thesis
    unfolding normalize_def l t by (rule r)
qed

lemma empty_no_match:
  "re_test re_next [] = False" "re_test re_prev [] = False"
  "re_match re_selectCell [] = None" "re_match re_toggleSubCell [] = None"
  "re_match re_cell [] = None" "re_match re_rowCol [] = None"
  "re_match re_subCells [] = None" "re_match re_boxNum [] = None"
  "re_test re_toggleAll [] = False" "re_test re_turnOn [] = False" "re_test re_turnOff [] = False"
  by code_simp+

lemma parse_empty_normal_form:
  assumes "normalize t = []"
  shows "parseVoiceCommand (JString t) = None"
  by (simp add: parseVoiceCommand_def parseCellNumber_def assms empty_no_match Let_def)

text \<open>
  Claim C8. A value that is not a string and the empty string yield \<open>None\<close> at the first
  test of the parser, before \<open>normalize\<close> is called. A string of white space only, such
  as three spaces, passes that test, is normalized to the empty string, matches no rule and
  yields \<open>None\<close> as well. The parser is a function of its input alone.
\<close>

theorem empty_input_is_None:
  "parseVoiceCommand JNonString = None \<and>
   parseVoiceCommand (JString []) = None \<and>
   (list_all is_space ws \<longrightarrow> parseVoiceCommand (JString ws) = None)"
  using parse_empty_normal_form[OF normalize_spaces]
  by (simp add: parseVoiceCommand_def)

theorem empty_input_is_None_witness:
  "list_all is_space ''   '' \<and> parseVoiceCommand (JString ''   '') = None"
  using empty_input_is_None[of "''   ''"] by (simp add: is_space_def)

section \<open>The dispatcher\<close>

text \<open>
  Claim C9. \<open>setActiveCell\<close> clamps an integer index into 0..23: the new
  \<open>activeCellIndex\<close> is \<open>max 0 (min 23 index)\<close>, computed with \<open>Math.max\<close> and \<open>Math.min\<close>
  for any number. It clears \<open>focusedSubIndex\<close> and empties \<open>selectedSubIndices\<close>. The
  commands \<open>NextCell\<close>, \<open>PrevCell\<close> and \<open>GoToCell\<close> change the focus through
  \<open>setActiveCell\<close> only, so the focus is reset after each of them.
\<close>

theorem setActiveCell_clamps_and_resets:
  "setActiveCell (Num i) f
     = \<lparr>activeCellIndex = Num (max 0 (min 23 i)), focusedSubIndex = None, selectedSubIndices = []\<rparr>
   \<and> activeCellIndex (setActiveCell index f) = js_max (Num 0) (js_min (Num 23) index)
   \<and> focusedSubIndex (setActiveCell index f) = None
   \<and> selectedSubIndices (setActiveCell index f) = []
   \<and> focus (handleVoiceCommand (Some NextCell) t st)
       = setActiveCell (js_add (activeCellIndex (focus st)) (Num 1)) (focus st)
   \<and> focus (handleVoiceCommand (Some PrevCell) t st)
       = setActiveCell (js_sub (activeCellIndex (focus st)) (Num 1)) (focus st)
   \<and> focus (handleVoiceCommand (Some (GoToCell index)) t st) = setActiveCell index (focus st)"
  by (simp add: setActiveCell_def handleVoiceCommand_def triggerCommandFlash_def Let_def
        MAIN_COUNT_def MAIN_COLS_def MAIN_ROWS_def)

text \<open>
  Claim C10. \<open>handleVoiceCommand\<close> has no case for \<open>applyToSub\<close>: the command falls to
  the default case and the state (grid, focus, flash flag, feedback messages) is returned as
  it was. So \<open>toggle cell 5\<close> and \<open>check box 3\<close>, which the parser turns into
  \<open>ApplyToSub\<close> commands, change nothing.
\<close>

theorem applyToSub_is_ignored:
  "handleVoiceCommand (Some (ApplyToSub subIndex action)) t st = st
   \<and> parseVoiceCommand (JString ''toggle cell 5'') = Some (ApplyToSub (Num 4) ActToggle)
   \<and> handleVoiceCommand (parseVoiceCommand (JString ''toggle cell 5'')) ''toggle cell 5'' st = st
   \<and> parseVoiceCommand (JString ''check box 3'') = Some (ApplyToSub (Num 2) ActTurnOn)
   \<and> handleVoiceCommand (parseVoiceCommand (JString ''check box 3'')) ''check box 3'' st = st"
proof -
  have h: "handleVoiceCommand (Some (ApplyToSub i a)) u st = st" for i a u
    by (simp add: handleVoiceCommand_def)
  have p1: "parseVoiceCommand (JString ''toggle cell 5'') = Some (ApplyToSub (Num 4) ActToggle)"
    by code_simp
  have p2: "parseVoiceCommand (JString ''check box 3'') = Some (ApplyToSub (Num 2) ActTurnOn)"
    by code_simp
  show ?thesis unfolding p1 p2 h by simp
qed

end
